theory Spec2Isabelle
  imports Main
begin

section \<open>Machine integers\<close>

text \<open>
  The program computes every offset in the C++ type \<open>int\<close> (32 bits, two's complement)
  and every string index in \<open>std::size_t\<close> (64 bits, unsigned). Values are modelled as
  HOL integers and the reduction to the machine range is written out at each arithmetic
  operation and conversion. Signed overflow is undefined in C++; the model takes the
  two's-complement result.
\<close>

definition INT_MAX :: int where
  "INT_MAX = 2147483647"

definition INT_MIN :: int where
  "INT_MIN = - 2147483648"

definition wrap_int :: "int \<Rightarrow> int" where
  "wrap_int x = (x + 2147483648) mod 4294967296 - 2147483648"

definition is_int :: "int \<Rightarrow> bool" where
  "is_int x = (INT_MIN \<le> x \<and> x \<le> INT_MAX)"

definition size_t_of_int :: "int \<Rightarrow> nat" where
  "size_t_of_int i = nat (i mod 18446744073709551616)"

definition int_of_size_t :: "nat \<Rightarrow> int" where
  "int_of_size_t n = wrap_int (int n)"

section \<open>Constants\<close>

definition border_size :: int where
  "border_size = 3"

definition chunk_size :: int where
  "chunk_size = 1000000"

section \<open>Range: a half-open interval\<close>

record Range =
  range_begin :: int
  range_end :: int

definition Range_clamp :: "Range \<Rightarrow> int \<Rightarrow> int \<Rightarrow> Range" where
  "Range_clamp r lo hi = \<lparr>range_begin = max (range_begin r) lo, range_end = min (range_end r) hi\<rparr>"

definition Range_extend :: "Range \<Rightarrow> int \<Rightarrow> Range" where
  "Range_extend r amount =
     \<lparr>range_begin = wrap_int (range_begin r - amount), range_end = wrap_int (range_end r + amount)\<rparr>"

definition Range_size :: "Range \<Rightarrow> int" where
  "Range_size r = wrap_int (range_end r - range_begin r)"

definition Range_split :: "Range \<Rightarrow> (Range \<times> Range) option" where
  "Range_split r =
     (if Range_size r \<le> chunk_size then None
      else let mid = wrap_int (range_begin r + chunk_size)
           in Some (\<lparr>range_begin = range_begin r, range_end = mid\<rparr>,
                    \<lparr>range_begin = mid, range_end = range_end r\<rparr>))"

text \<open>The byte offsets a half-open interval stands for.\<close>

definition offsets :: "Range \<Rightarrow> int set" where
  "offsets r = {range_begin r ..< range_end r}"

section \<open>Files and chunks\<close>

text \<open>
  The disk is the environment of the program: it maps a path to the bytes stored
  there, if a file can be opened under that path.
\<close>

type_synonym disk = "string \<Rightarrow> string option"

datatype error = Out_of_range | Length_error | Filesystem_error

record File =
  file_path :: string
  file_size :: int

text \<open>
  The constructor of \<open>File\<close> seeks to the end of the stream and stores the
  position in an \<open>int\<close>; on a stream that could not be opened the position is \<open>-1\<close>.
\<close>

definition File_ctor :: "disk \<Rightarrow> string \<Rightarrow> File" where
  "File_ctor d p =
     \<lparr>file_path = p,
      file_size = (case d p of None \<Rightarrow> - 1 | Some bytes \<Rightarrow> wrap_int (int (length bytes)))\<rparr>"

record FileChunk =
  chunk_file :: File
  chunk_search :: Range
  chunk_read :: Range
  chunk_contents :: string

definition FileChunk_ctor :: "File \<Rightarrow> Range \<Rightarrow> FileChunk" where
  "FileChunk_ctor file search_range =
     \<lparr>chunk_file = file,
      chunk_search = search_range,
      chunk_read = Range_clamp (Range_extend search_range border_size) 0 (file_size file),
      chunk_contents = []\<rparr>"

text \<open>
  \<open>fetch_contents\<close> allocates a zero-filled buffer of \<open>read.size()\<close> bytes (the
  allocation throws when the size is negative, since it is converted to an unsigned
  size), seeks to \<open>read.begin\<close> and reads into the buffer. A stream that could not be
  opened or positioned reads nothing, and a read that meets the end of the file leaves the
  remaining bytes of the buffer zero.
\<close>

definition fetch_contents :: "disk \<Rightarrow> FileChunk \<Rightarrow> error + FileChunk" where
  "fetch_contents d chunk =
     (let n = Range_size (chunk_read chunk) in
      if n < 0 then Inl Length_error
      else
        let got =
          (case d (file_path (chunk_file chunk)) of
             None \<Rightarrow> []
           | Some bytes \<Rightarrow>
               if range_begin (chunk_read chunk) < 0 then []
               else take (nat n) (drop (nat (range_begin (chunk_read chunk))) bytes))
        in Inr (chunk\<lparr>chunk_contents := got @ replicate (nat n - length got) (CHR 0x00)\<rparr>))"

section \<open>Matches\<close>

record Match =
  match_path :: string
  match_position :: int
  match_prefix :: string
  match_suffix :: string

text \<open>
  \<open>std::string::substr(pos, count)\<close>: throws \<open>std::out_of_range\<close> when \<open>pos\<close> is
  beyond the size of the string, and otherwise returns the characters from \<open>pos\<close> on, at
  most \<open>count\<close> of them. Both arguments are unsigned.
\<close>

definition substr :: "string \<Rightarrow> nat \<Rightarrow> nat \<Rightarrow> error + string" where
  "substr s pos count = (if length s < pos then Inl Out_of_range else Inr (take count (drop pos s)))"

definition prefix :: "string \<Rightarrow> int \<Rightarrow> error + string" where
  "prefix contents index =
     (let offset = max (wrap_int (index - border_size)) 0;
          count = wrap_int (index - offset)
      in substr contents (size_t_of_int offset) (size_t_of_int count))"

definition suffix :: "string \<Rightarrow> int \<Rightarrow> error + string" where
  "suffix contents index = substr contents (size_t_of_int index) (size_t_of_int border_size)"

fun transform_loop :: "string \<Rightarrow> string \<Rightarrow> string" where
  "transform_loop result [] = result"
| "transform_loop result (c # cs) =
     transform_loop
       (if c = CHR 0x0A then result @ [CHR 0x5C, CHR ''n'']
        else if c = CHR 0x09 then result @ [CHR 0x5C, CHR ''t'']
        else result @ [c])
       cs"

definition transform :: "string \<Rightarrow> string" where
  "transform s = transform_loop [] s"

text \<open>
  The escaping as the specification words it: a newline becomes the two characters
  backslash and \<open>n\<close>, a tab becomes backslash and \<open>t\<close>, every other byte stays.
\<close>

definition escape_char :: "char \<Rightarrow> string" where
  "escape_char c =
     (if c = CHR 0x0A then [CHR 0x5C, CHR ''n'']
      else if c = CHR 0x09 then [CHR 0x5C, CHR ''t'']
      else [c])"

definition escaped :: "string \<Rightarrow> string" where
  "escaped s = concat (map escape_char s)"

text \<open>
  \<open>std::string::find(str, pos)\<close>: the least index from \<open>pos\<close> on at which \<open>str\<close>
  occurs in the string, or \<open>npos\<close> (here \<open>None\<close>) when there is none.
\<close>

function string_find :: "string \<Rightarrow> string \<Rightarrow> nat \<Rightarrow> nat option" where
  "string_find s str pos =
     (if length s < pos + length str then None
      else if take (length str) (drop pos s) = str then Some pos
      else string_find s str (Suc pos))"
  by pat_completeness auto
termination
  by (relation "measure (\<lambda>(s, str, pos). Suc (length s) - pos)") auto

declare string_find.simps [simp del]

lemma string_find_Some:
  "string_find s str pos = Some q \<Longrightarrow> pos \<le> q \<and> q + length str \<le> length s"
proof (induction s str pos rule: string_find.induct)
  case (1 s str pos)
  then show ?case
    by (subst (asm) (2) string_find.simps) (auto split: if_splits)
qed

definition to_index :: "FileChunk \<Rightarrow> int \<Rightarrow> int" where
  "to_index chunk pos = wrap_int (pos - range_begin (chunk_read chunk))"

function matches_loop :: "FileChunk \<Rightarrow> string \<Rightarrow> nat option \<Rightarrow> Match list \<Rightarrow> error + Match list" where
  "matches_loop chunk str None result = Inr result"
| "matches_loop chunk str (Some pos) result =
     (if pos < size_t_of_int (to_index chunk (range_end (chunk_search chunk))) then
        (case prefix (chunk_contents chunk) (to_index chunk (int_of_size_t pos)) of
           Inl e \<Rightarrow> Inl e
         | Inr p \<Rightarrow>
             (case suffix (chunk_contents chunk) (to_index chunk (int_of_size_t (pos + length str))) of
                Inl e \<Rightarrow> Inl e
              | Inr s \<Rightarrow>
                  matches_loop chunk str (string_find (chunk_contents chunk) str (pos + 1))
                    (result @
                      [\<lparr>match_path = file_path (chunk_file chunk),
                        match_position = int_of_size_t pos,
                        match_prefix = transform p,
                        match_suffix = transform s\<rparr>])))
      else Inr result)"
  by pat_completeness auto
termination
proof (relation "measure (\<lambda>(chunk, str, po, result).
          case po of None \<Rightarrow> 0 | Some pos \<Rightarrow> Suc (length (chunk_contents chunk) - pos))")
  show "wf (measure (\<lambda>(chunk, str, po, result).
          case po of None \<Rightarrow> 0 | Some pos \<Rightarrow> Suc (length (chunk_contents chunk) - pos)))"
    by simp
next
  fix chunk :: FileChunk and str :: string and pos :: nat and result :: "Match list"
    and p s :: string
  show "((chunk, str, string_find (chunk_contents chunk) str (pos + 1),
          result @
            [\<lparr>match_path = file_path (chunk_file chunk),
              match_position = int_of_size_t pos,
              match_prefix = transform p,
              match_suffix = transform s\<rparr>]),
         (chunk, str, Some pos, result))
        \<in> measure (\<lambda>(chunk, str, po, result).
          case po of None \<Rightarrow> 0 | Some pos \<Rightarrow> Suc (length (chunk_contents chunk) - pos))"
  proof (cases "string_find (chunk_contents chunk) str (pos + 1)")
    case None
    then show ?thesis by simp
  next
    case (Some q)
    from string_find_Some [OF Some] show ?thesis
      using Some by auto
  qed
qed

declare matches_loop.simps [simp del]

definition matches :: "FileChunk \<Rightarrow> string \<Rightarrow> error + Match list" where
  "matches chunk str =
     matches_loop chunk str
       (string_find (chunk_contents chunk) str
          (size_t_of_int (to_index chunk (range_begin (chunk_search chunk)))))
       []"

section \<open>Chunking\<close>

text \<open>
  The loop of \<open>chunks\<close> ends because each split leaves a right part whose
  \<open>size()\<close> is smaller by \<open>chunk_size\<close>, also where the 32-bit arithmetic wraps
  around. The facts about \<open>wrap_int\<close> that show it come first.
\<close>

lemma wrap_int_id: "is_int x \<Longrightarrow> wrap_int x = x"
  by (simp add: wrap_int_def is_int_def INT_MIN_def INT_MAX_def)

lemma wrap_int_range: "is_int (wrap_int x)"
  by (simp add: wrap_int_def is_int_def INT_MIN_def INT_MAX_def)

lemma wrap_int_diff_right: "wrap_int (a - wrap_int b) = wrap_int (a - b)"
proof -
  have "(a - ((b + 2147483648) mod 4294967296 - 2147483648) + 2147483648) mod 4294967296
        = ((a + 4294967296) - (b + 2147483648) mod 4294967296) mod 4294967296"
    by (simp add: algebra_simps)
  also have "\<dots> = ((a + 4294967296) - (b + 2147483648)) mod 4294967296"
    by (rule mod_diff_right_eq)
  also have "\<dots> = (a - b + 2147483648) mod 4294967296"
    by (simp add: algebra_simps)
  finally show ?thesis by (simp add: wrap_int_def)
qed

lemma wrap_int_diff_left: "wrap_int (wrap_int a - b) = wrap_int (a - b)"
proof -
  have "(((a + 2147483648) mod 4294967296 - 2147483648) - b + 2147483648) mod 4294967296
        = ((a + 2147483648) mod 4294967296 - b) mod 4294967296"
    by (simp add: algebra_simps)
  also have "\<dots> = ((a + 2147483648) - b) mod 4294967296"
    by (rule mod_diff_left_eq)
  also have "\<dots> = (a - b + 2147483648) mod 4294967296"
    by (simp add: algebra_simps)
  finally show ?thesis by (simp add: wrap_int_def)
qed

lemma split_size_decreases:
  assumes "chunk_size < wrap_int (e - b)"
  shows "wrap_int (e - wrap_int (b + chunk_size)) = wrap_int (e - b) - chunk_size"
proof -
  have "wrap_int (e - wrap_int (b + chunk_size)) = wrap_int (e - b - chunk_size)"
    by (simp add: wrap_int_diff_right algebra_simps)
  also have "\<dots> = wrap_int (wrap_int (e - b) - chunk_size)"
    by (simp add: wrap_int_diff_left)
  also have "\<dots> = wrap_int (e - b) - chunk_size"
    using assms wrap_int_range [of "e - b"]
    by (intro wrap_int_id) (simp add: is_int_def INT_MIN_def INT_MAX_def chunk_size_def)
  finally show ?thesis .
qed

lemma Range_split_Some_size:
  assumes "Range_split r = Some (l, r')"
  shows "chunk_size < Range_size r" and "Range_size r' = Range_size r - chunk_size"
proof -
  show gt: "chunk_size < Range_size r"
    using assms by (simp add: Range_split_def split: if_splits)
  have "r' = \<lparr>range_begin = wrap_int (range_begin r + chunk_size), range_end = range_end r\<rparr>"
    using assms by (auto simp: Range_split_def Let_def split: if_splits)
  then show "Range_size r' = Range_size r - chunk_size"
    using split_size_decreases [of "range_end r" "range_begin r"] gt
    by (simp add: Range_size_def)
qed

text \<open>
  The loop of \<open>chunks\<close>: while the search range of the last chunk splits, the last
  chunk is replaced by the left part and a chunk for the right part is appended.
\<close>

function chunks_loop :: "File \<Rightarrow> FileChunk list \<Rightarrow> FileChunk list" where
  "chunks_loop file result =
     (case Range_split (chunk_search (last result)) of
        None \<Rightarrow> result
      | Some (l, r) \<Rightarrow>
          chunks_loop file
            (result[length result - 1 := FileChunk_ctor file l] @ [FileChunk_ctor file r]))"
  by pat_completeness auto
termination
proof (relation "measure (\<lambda>(file, result). nat (Range_size (chunk_search (last result))))")
  show "wf (measure (\<lambda>(file, result). nat (Range_size (chunk_search (last result)))))"
    by simp
next
  fix f :: File and result :: "FileChunk list" and x2 :: "Range \<times> Range" and l r :: Range
  assume "Range_split (chunk_search (last result)) = Some x2" and "(l, r) = x2"
  then have s: "Range_split (chunk_search (last result)) = Some (l, r)"
    by simp
  have "chunk_size < Range_size (chunk_search (last result))"
    and "Range_size r = Range_size (chunk_search (last result)) - chunk_size"
    using Range_split_Some_size [OF s] by simp_all
  then show "((f, result[length result - 1 := FileChunk_ctor f l] @ [FileChunk_ctor f r]),
              (f, result))
             \<in> measure (\<lambda>(file, result). nat (Range_size (chunk_search (last result))))"
    by (simp add: FileChunk_ctor_def chunk_size_def)
qed

declare chunks_loop.simps [simp del]

definition chunks :: "File \<Rightarrow> FileChunk list" where
  "chunks file =
     chunks_loop file [FileChunk_ctor file \<lparr>range_begin = 0, range_end = file_size file\<rparr>]"

text \<open>
  Two notions for stating the properties of the loop. A list of intervals is a chain from
  \<open>a\<close> to \<open>b\<close> when the first begins at \<open>a\<close>, each one begins where the one
  before ends, none has its end before its begin, and the last ends at \<open>b\<close>. The
  invariant of the loop: the chunks are built by the constructor for the file, their search
  intervals are a chain from \<open>0\<close> to the file size, and all but the last have exactly
  \<open>chunk_size\<close> offsets.
\<close>

fun chain :: "int \<Rightarrow> Range list \<Rightarrow> int \<Rightarrow> bool" where
  "chain a [] b = (a = b)"
| "chain a (r # rs) b = (range_begin r = a \<and> a \<le> range_end r \<and> chain (range_end r) rs b)"

definition chunks_inv :: "File \<Rightarrow> FileChunk list \<Rightarrow> bool" where
  "chunks_inv file result =
     (result \<noteq> [] \<and>
      list_all (\<lambda>c. c = FileChunk_ctor file (chunk_search c)) result \<and>
      chain 0 (map chunk_search result) (file_size file) \<and>
      list_all (\<lambda>c. range_end (chunk_search c) - range_begin (chunk_search c) = chunk_size)
        (butlast result))"

section \<open>The program\<close>

text \<open>
  \<open>search\<close> fetches the contents of a chunk and prints one line for each match. The
  model returns the matches printed; an exception leaves the function before anything
  is printed.
\<close>

definition search :: "disk \<Rightarrow> FileChunk \<Rightarrow> string \<Rightarrow> error + Match list" where
  "search d chunk str =
     (case fetch_contents d chunk of
        Inl e \<Rightarrow> Inl e
      | Inr fetched \<Rightarrow> matches fetched str)"

text \<open>
  The file system as the program queries it. The program calls the overloads of
  \<open>std::filesystem::is_regular_file\<close> and \<open>is_directory\<close> that throw
  \<open>filesystem_error\<close> when the status of the path cannot be read, so each query
  answers with an error or a truth value. The recursive walk below a directory throws
  when it cannot be started or advanced (an unreadable directory), and otherwise yields
  its entries, each with the answer of \<open>is_regular_file()\<close> on the entry, which throws
  on an entry whose status cannot be read (a symbolic link that loops). The entries that
  a failing walk yielded before it failed are lost with the result under construction,
  so a failing walk is a single error value. The last field is the disk.
\<close>

record FileSystem =
  is_regular_file :: "string \<Rightarrow> error + bool"
  is_directory :: "string \<Rightarrow> error + bool"
  recursive_directory_iterator :: "string \<Rightarrow> error + (string \<times> (error + bool)) list"
  fs_disk :: disk

text \<open>
  The loop of \<open>files\<close> over the entries of the walk: a regular file is appended to
  the result, and an exception of the query on an entry leaves the loop.
\<close>

fun files_loop :: "disk \<Rightarrow> (string \<times> (error + bool)) list \<Rightarrow> File list \<Rightarrow> error + File list" where
  "files_loop d [] result = Inr result"
| "files_loop d (entry # entries) result =
     (case snd entry of
        Inl e \<Rightarrow> Inl e
      | Inr regular \<Rightarrow>
          files_loop d entries (if regular then result @ [File_ctor d (fst entry)] else result))"

text \<open>
  \<open>files\<close> returns the files to search, or nothing for a path that is neither a
  regular file nor a directory; an exception of a query leaves the function.
\<close>

definition files :: "FileSystem \<Rightarrow> string \<Rightarrow> error + File list option" where
  "files fs p =
     (case is_regular_file fs p of
        Inl e \<Rightarrow> Inl e
      | Inr regular \<Rightarrow>
          if regular then Inr (Some [File_ctor (fs_disk fs) p])
          else
            (case is_directory fs p of
               Inl e \<Rightarrow> Inl e
             | Inr directory \<Rightarrow>
                 if \<not> directory then Inr None
                 else
                   (case recursive_directory_iterator fs p of
                      Inl e \<Rightarrow> Inl e
                    | Inr entries \<Rightarrow>
                        (case files_loop (fs_disk fs) entries [] of
                           Inl e \<Rightarrow> Inl e
                         | Inr result \<Rightarrow> Inr (Some result)))))"

datatype exit_status = EXIT_SUCCESS | EXIT_FAILURE

text \<open>
  What a run of the program leaves behind. Either \<open>main\<close> returns: then there is the
  exit status, the text that \<open>main\<close> wrote to the error stream, and for every chunk
  handed to a task the result of \<open>search\<close> on it (the lines it printed, or the
  exception that ended the task; the exception is kept in the future of the task and never
  looked at). The tasks run concurrently; the list is in the order in which they were
  launched, and \<open>main\<close> returns only when the futures are destroyed, which waits for
  every task. Or an exception leaves \<open>main\<close>, which has no handler: the program is
  ended by \<open>std::terminate\<close>, abnormally and with neither of the two exit statuses.
  Exhaustion of memory or of threads is not part of the model.
\<close>

datatype Outcome =
  Exit exit_status string "(FileChunk \<times> (error + Match list)) list"
| Terminate error

definition usage_message :: string where
  "usage_message = ''Usage: minigrep <directory|file> <search string>'' @ [CHR 0x0A]"

definition path_message :: string where
  "path_message = ''Argument 1 must be a directory or a file'' @ [CHR 0x0A]"

text \<open>
  \<open>main\<close>: the two loops are the loop that appends the chunks of each file to
  \<open>all_chunks\<close> and the loop that launches one task for each chunk. Falling off the
  end of \<open>main\<close> is the success status.
\<close>

definition main :: "FileSystem \<Rightarrow> string list \<Rightarrow> Outcome" where
  "main fs argv =
     (if length argv \<noteq> 3 then Exit EXIT_FAILURE usage_message []
      else
        (case files fs (argv ! 1) of
           Inl e \<Rightarrow> Terminate e
         | Inr None \<Rightarrow> Exit EXIT_FAILURE path_message []
         | Inr (Some fl) \<Rightarrow>
             let all_chunks = foldl (\<lambda>all_chunks file. all_chunks @ chunks file) [] fl;
                 futures =
                   foldl (\<lambda>futures chunk. futures @ [(chunk, search (fs_disk fs) chunk (argv ! 2))])
                     [] all_chunks
             in Exit EXIT_SUCCESS [] futures))"

section \<open>Notions for stating the properties of the matcher\<close>

text \<open>
  \<open>str\<close> occurs in \<open>s\<close> at index \<open>i\<close>.
\<close>

definition occurs_at :: "string \<Rightarrow> string \<Rightarrow> nat \<Rightarrow> bool" where
  "occurs_at s str i = (i + length str \<le> length s \<and> take (length str) (drop i s) = str)"

text \<open>
  The match record that the documentation of the source asks for, for an occurrence at
  index \<open>i\<close> of the contents of a chunk: the position is the offset of the occurrence
  from the start of the file, the prefix is made of the up to \<open>border_size\<close>
  characters before the occurrence and the suffix of the up to \<open>border_size\<close>
  characters after it, both escaped.
\<close>

definition spec_match :: "FileChunk \<Rightarrow> string \<Rightarrow> nat \<Rightarrow> Match" where
  "spec_match chunk str i =
     \<lparr>match_path = file_path (chunk_file chunk),
      match_position = range_begin (chunk_read chunk) + int i,
      match_prefix = transform (drop (i - nat border_size) (take i (chunk_contents chunk))),
      match_suffix = transform (take (nat border_size) (drop (i + length str) (chunk_contents chunk)))\<rparr>"

text \<open>
  The index from which the loop of \<open>matches\<close> searches and the index at which it
  stops, as the unsigned values that the loop passes to \<open>find\<close> and compares with.
\<close>

definition scan_begin :: "FileChunk \<Rightarrow> nat" where
  "scan_begin chunk = size_t_of_int (to_index chunk (range_begin (chunk_search chunk)))"

definition scan_end :: "FileChunk \<Rightarrow> nat" where
  "scan_end chunk = size_t_of_int (to_index chunk (range_end (chunk_search chunk)))"

section \<open>The compile-time assertions of the source\<close>

lemma static_assert_clamp:
  "Range_clamp \<lparr>range_begin = 1, range_end = 3\<rparr> 0 2 = \<lparr>range_begin = 1, range_end = 2\<rparr>"
  by (simp add: Range_clamp_def)

lemma static_assert_extend:
  "Range_extend \<lparr>range_begin = 1, range_end = 3\<rparr> 2 = \<lparr>range_begin = - 1, range_end = 5\<rparr>"
  by (simp add: Range_extend_def wrap_int_def)

lemma static_assert_size: "Range_size \<lparr>range_begin = 1, range_end = 3\<rparr> = 2"
  by (simp add: Range_size_def wrap_int_def)

lemma static_assert_split:
  "Range_split \<lparr>range_begin = 0, range_end = chunk_size + 100\<rparr> =
     Some (\<lparr>range_begin = 0, range_end = chunk_size\<rparr>,
           \<lparr>range_begin = chunk_size, range_end = chunk_size + 100\<rparr>)"
  by (simp add: Range_split_def Range_size_def wrap_int_def chunk_size_def)

lemma static_assert_prefix: "prefix ''abcd'' 0 = Inr []" "prefix ''abcd'' 2 = Inr ''ab''"
  by (simp_all add: prefix_def substr_def size_t_of_int_def wrap_int_def border_size_def)

lemma static_assert_suffix: "suffix ''abcd'' 0 = Inr ''abc''" "suffix ''abcd'' 2 = Inr ''cd''"
  by (simp_all add: suffix_def substr_def size_t_of_int_def border_size_def)

lemma static_assert_transform:
  "transform ''abcd'' = ''abcd''"
  "transform [CHR 0x09, CHR 0x0A] = [CHR 0x5C, CHR ''t'', CHR 0x5C, CHR ''n'']"
  by (simp_all add: transform_def)

section \<open>Intervals\<close>

text \<open>
  C7. For every interval \<open>r\<close> and all bounds \<open>lo\<close> and \<open>hi\<close> (in particular
  for \<open>lo \<le> hi\<close>), \<open>r.clamp(lo, hi)\<close> lies within the half-open interval from
  \<open>lo\<close> to \<open>hi\<close> and is a sub-interval of \<open>r\<close>: its begin is at least \<open>lo\<close>
  and at least \<open>r.begin\<close>, its end is at most \<open>hi\<close> and at most \<open>r.end\<close>, and
  its offsets are those of \<open>r\<close> that lie between the bounds.
\<close>

theorem Range_clamp_within:
  "lo \<le> range_begin (Range_clamp r lo hi) \<and>
   range_end (Range_clamp r lo hi) \<le> hi \<and>
   range_begin r \<le> range_begin (Range_clamp r lo hi) \<and>
   range_end (Range_clamp r lo hi) \<le> range_end r \<and>
   offsets (Range_clamp r lo hi) \<subseteq> {lo ..< hi} \<and>
   offsets (Range_clamp r lo hi) \<subseteq> offsets r \<and>
   offsets (Range_clamp r lo hi) = offsets r \<inter> {lo ..< hi}"
  by (auto simp: Range_clamp_def offsets_def)

lemma wrap_int_high:
  assumes "2147483648 \<le> x" and "x < 4294967296"
  shows "wrap_int x = x - 4294967296"
proof -
  have e: "x + 2147483648 = (x - 2147483648) + 4294967296"
    by simp
  have "(x + 2147483648) mod 4294967296 = ((x - 2147483648) + 4294967296) mod 4294967296"
    by (subst e) (rule refl)
  also have "\<dots> = (x - 2147483648) mod 4294967296"
    by (rule mod_add_self2)
  also have "\<dots> = x - 2147483648"
    using assms by (intro mod_pos_pos_trivial) simp_all
  finally show ?thesis by (simp add: wrap_int_def)
qed

lemma Range_size_exact:
  assumes "is_int (range_begin r)" "is_int (range_end r)" "range_begin r \<le> range_end r"
    and "0 \<le> Range_size r"
  shows "Range_size r = range_end r - range_begin r"
proof -
  let ?d = "range_end r - range_begin r"
  have d: "0 \<le> ?d" "?d < 4294967296"
    using assms(1-3) by (simp_all add: is_int_def INT_MIN_def INT_MAX_def)
  show ?thesis
  proof (cases "?d < 2147483648")
    case True
    with d have "is_int ?d" by (simp add: is_int_def INT_MIN_def INT_MAX_def)
    then show ?thesis by (simp add: Range_size_def wrap_int_id)
  next
    case False
    with d have "wrap_int ?d = ?d - 4294967296"
      by (intro wrap_int_high) simp_all
    with d have "wrap_int ?d < 0" by simp
    with assms(4) show ?thesis by (simp add: Range_size_def)
  qed
qed

text \<open>
  C4. For every interval \<open>r\<close> (a begin and an end of type \<open>int\<close> with
  \<open>begin \<le> end\<close>): if \<open>r.size() \<le> chunk_size\<close> then \<open>r.split()\<close> returns nothing;
  otherwise it returns a pair of a left interval from \<open>r.begin\<close> to
  \<open>r.begin + chunk_size\<close>, of size \<open>chunk_size\<close>, and a right interval that begins
  where the left one ends and ends at \<open>r.end\<close>; the two are disjoint, their union is
  \<open>r\<close>, and their sizes add up to the size of \<open>r\<close>.
\<close>

theorem Range_split_spec:
  assumes "is_int (range_begin r)" and "is_int (range_end r)"
    and "range_begin r \<le> range_end r"
  shows "if Range_size r \<le> chunk_size then Range_split r = None
         else (\<exists>left right.
                 Range_split r = Some (left, right) \<and>
                 left = \<lparr>range_begin = range_begin r, range_end = range_begin r + chunk_size\<rparr> \<and>
                 Range_size left = chunk_size \<and>
                 range_begin right = range_end left \<and>
                 range_end right = range_end r \<and>
                 offsets left \<union> offsets right = offsets r \<and>
                 offsets left \<inter> offsets right = {} \<and>
                 Range_size left + Range_size right = Range_size r)"
proof (cases "Range_size r \<le> chunk_size")
  case True
  then show ?thesis by (simp add: Range_split_def)
next
  case False
  then have big: "chunk_size < Range_size r" by simp
  then have "0 \<le> Range_size r" by (simp add: chunk_size_def)
  from Range_size_exact [OF assms this]
  have sz: "Range_size r = range_end r - range_begin r" .
  let ?mid = "range_begin r + chunk_size"
  have mid_lt: "?mid < range_end r" using big sz by simp
  then have "is_int ?mid"
    using assms(1,2) by (simp add: is_int_def INT_MIN_def INT_MAX_def chunk_size_def)
  then have mid: "wrap_int ?mid = ?mid" by (rule wrap_int_id)
  let ?l = "\<lparr>range_begin = range_begin r, range_end = ?mid\<rparr>"
  let ?r = "\<lparr>range_begin = ?mid, range_end = range_end r\<rparr>"
  have split: "Range_split r = Some (?l, ?r)"
    using big mid by (simp add: Range_split_def Let_def)
  have szl: "Range_size ?l = chunk_size"
    by (simp add: Range_size_def wrap_int_def chunk_size_def)
  have szr: "Range_size ?r = Range_size r - chunk_size"
    using Range_split_Some_size(2) [OF split] .
  have un: "offsets ?l \<union> offsets ?r = offsets r"
    using mid_lt by (auto simp: offsets_def chunk_size_def)
  have disj: "offsets ?l \<inter> offsets ?r = {}"
    by (auto simp: offsets_def)
  from False split szl szr un disj show ?thesis by simp
qed

theorem Range_split_spec_witness:
  "is_int 0 \<and> is_int 1000100 \<and> (0::int) \<le> 1000100 \<and>
   (\<exists>left right.
      Range_split \<lparr>range_begin = 0, range_end = 1000100\<rparr> = Some (left, right) \<and>
      left = \<lparr>range_begin = 0, range_end = 1000000\<rparr> \<and>
      range_begin right = 1000000 \<and> range_end right = 1000100) \<and>
   is_int 1 \<and> is_int 3 \<and> (1::int) \<le> 3 \<and>
   Range_split \<lparr>range_begin = 1, range_end = 3\<rparr> = None"
proof -
  let ?R = "\<lparr>range_begin = 0, range_end = 1000100\<rparr>"
  let ?Q = "\<lparr>range_begin = 1, range_end = 3\<rparr>"
  have a: "is_int 0" "is_int 1000100" "is_int 1" "is_int 3"
    by (simp_all add: is_int_def INT_MIN_def INT_MAX_def)
  have big: "\<not> Range_size ?R \<le> chunk_size"
    by (simp add: Range_size_def wrap_int_def chunk_size_def)
  have small: "Range_size ?Q \<le> chunk_size"
    by (simp add: Range_size_def wrap_int_def chunk_size_def)
  have "if Range_size ?R \<le> chunk_size then Range_split ?R = None
        else (\<exists>left right.
                 Range_split ?R = Some (left, right) \<and>
                 left = \<lparr>range_begin = range_begin ?R, range_end = range_begin ?R + chunk_size\<rparr> \<and>
                 Range_size left = chunk_size \<and>
                 range_begin right = range_end left \<and>
                 range_end right = range_end ?R \<and>
                 offsets left \<union> offsets right = offsets ?R \<and>
                 offsets left \<inter> offsets right = {} \<and>
                 Range_size left + Range_size right = Range_size ?R)"
    by (rule Range_split_spec) (simp_all add: a)
  with big obtain left right where
    "Range_split ?R = Some (left, right)"
    "left = \<lparr>range_begin = range_begin ?R, range_end = range_begin ?R + chunk_size\<rparr>"
    "range_begin right = range_end left" "range_end right = range_end ?R"
    by (simp only: if_False) blast
  then have 1: "\<exists>left right.
      Range_split ?R = Some (left, right) \<and>
      left = \<lparr>range_begin = 0, range_end = 1000000\<rparr> \<and>
      range_begin right = 1000000 \<and> range_end right = 1000100"
    by (simp add: chunk_size_def)
  have "if Range_size ?Q \<le> chunk_size then Range_split ?Q = None
        else (\<exists>left right.
                 Range_split ?Q = Some (left, right) \<and>
                 left = \<lparr>range_begin = range_begin ?Q, range_end = range_begin ?Q + chunk_size\<rparr> \<and>
                 Range_size left = chunk_size \<and>
                 range_begin right = range_end left \<and>
                 range_end right = range_end ?Q \<and>
                 offsets left \<union> offsets right = offsets ?Q \<and>
                 offsets left \<inter> offsets right = {} \<and>
                 Range_size left + Range_size right = Range_size ?Q)"
    by (rule Range_split_spec) (simp_all add: a)
  with small have 2: "Range_split ?Q = None"
    by (simp only: if_True)
  from a 1 2 show ?thesis by simp
qed

section \<open>Chunking: the search intervals partition the file\<close>

lemma chain_append:
  "chain a (xs @ ys) b = (\<exists>m. chain a xs m \<and> chain m ys b)"
  by (induction xs arbitrary: a) auto

lemma chain_le: "chain a rs b \<Longrightarrow> a \<le> b"
  by (induction rs arbitrary: a) fastforce+

lemma chain_bounds:
  "chain a rs b \<Longrightarrow> r \<in> set rs \<Longrightarrow>
     a \<le> range_begin r \<and> range_begin r \<le> range_end r \<and> range_end r \<le> b"
proof (induction rs arbitrary: a)
  case Nil
  then show ?case by simp
next
  case (Cons x rs)
  show ?case
  proof (cases "r = x")
    case True
    with Cons.prems chain_le [of "range_end x" rs b] show ?thesis by simp
  next
    case False
    with Cons.prems have "chain (range_end x) rs b" "r \<in> set rs" "a \<le> range_end x"
      by simp_all
    with Cons.IH [of "range_end x"] show ?thesis by simp
  qed
qed

lemma chain_offsets: "chain a rs b \<Longrightarrow> (\<Union>r\<in>set rs. offsets r) = {a ..< b}"
proof (induction rs arbitrary: a)
  case Nil
  then show ?case by simp
next
  case (Cons x rs)
  then have x: "range_begin x = a" "a \<le> range_end x" and rest: "chain (range_end x) rs b"
    by simp_all
  from chain_le [OF rest] have "range_end x \<le> b" .
  with x have "offsets x \<union> {range_end x ..< b} = {a ..< b}"
    by (auto simp: offsets_def)
  with Cons.IH [OF rest] show ?case by simp
qed

lemma chain_hd: "chain a rs b \<Longrightarrow> rs \<noteq> [] \<Longrightarrow> range_begin (hd rs) = a"
  by (cases rs) simp_all

lemma chain_last: "chain a rs b \<Longrightarrow> rs \<noteq> [] \<Longrightarrow> range_end (last rs) = b"
proof (induction rs arbitrary: a)
  case Nil
  then show ?case by simp
next
  case (Cons x rs)
  then show ?case by (cases rs) auto
qed

lemma chain_nth_Suc:
  "chain a rs b \<Longrightarrow> Suc i < length rs \<Longrightarrow> range_begin (rs ! Suc i) = range_end (rs ! i)"
proof (induction rs arbitrary: a i)
  case Nil
  then show ?case by simp
next
  case (Cons x rs)
  show ?case
  proof (cases i)
    case 0
    with Cons.prems show ?thesis by (cases rs) simp_all
  next
    case (Suc k)
    with Cons.prems Cons.IH [of "range_end x" k] show ?thesis by simp
  qed
qed

lemma chain_ordered:
  "chain a rs b \<Longrightarrow> i < j \<Longrightarrow> j < length rs \<Longrightarrow> range_end (rs ! i) \<le> range_begin (rs ! j)"
proof (induction rs arbitrary: a i j)
  case Nil
  then show ?case by simp
next
  case (Cons x rs)
  from Cons.prems obtain k where j: "j = Suc k" and k: "k < length rs"
    by (cases j) auto
  from Cons.prems have rest: "chain (range_end x) rs b" by simp
  show ?case
  proof (cases i)
    case 0
    from chain_bounds [OF rest, of "rs ! k"] k have "range_end x \<le> range_begin (rs ! k)"
      by simp
    with 0 j show ?thesis by simp
  next
    case (Suc i')
    with Cons.prems j have "i' < k" by simp
    from Cons.IH [OF rest this k] Suc j show ?thesis by simp
  qed
qed

lemma offsets_disjoint: "range_end r \<le> range_begin r' \<Longrightarrow> offsets r \<inter> offsets r' = {}"
  by (auto simp: offsets_def)

lemma Range_split_SomeD:
  assumes "is_int (range_begin r)" and "is_int (range_end r)"
    and "range_begin r \<le> range_end r"
    and "Range_split r = Some (l, r')"
  shows "l = \<lparr>range_begin = range_begin r, range_end = range_begin r + chunk_size\<rparr>"
    and "r' = \<lparr>range_begin = range_begin r + chunk_size, range_end = range_end r\<rparr>"
    and "range_begin r + chunk_size < range_end r"
proof -
  from Range_split_Some_size(1) [OF assms(4)] have big: "chunk_size < Range_size r" .
  then have "0 \<le> Range_size r" by (simp add: chunk_size_def)
  from Range_size_exact [OF assms(1-3) this] big
  show lt: "range_begin r + chunk_size < range_end r" by simp
  then have "is_int (range_begin r + chunk_size)"
    using assms(1,2) by (simp add: is_int_def INT_MIN_def INT_MAX_def chunk_size_def)
  then have "wrap_int (range_begin r + chunk_size) = range_begin r + chunk_size"
    by (rule wrap_int_id)
  with assms(4) big
  show "l = \<lparr>range_begin = range_begin r, range_end = range_begin r + chunk_size\<rparr>"
    and "r' = \<lparr>range_begin = range_begin r + chunk_size, range_end = range_end r\<rparr>"
    by (auto simp: Range_split_def Let_def)
qed

lemma chunks_inv_init:
  "0 \<le> file_size file \<Longrightarrow>
   chunks_inv file [FileChunk_ctor file \<lparr>range_begin = 0, range_end = file_size file\<rparr>]"
  by (simp add: chunks_inv_def FileChunk_ctor_def)

lemma chunks_inv_step:
  assumes inv: "chunks_inv file result"
    and size: "file_size file \<le> INT_MAX"
    and split: "Range_split (chunk_search (last result)) = Some (l, r)"
  shows "chunks_inv file
           (result[length result - 1 := FileChunk_ctor file l] @ [FileChunk_ctor file r])"
proof -
  from inv have ne: "result \<noteq> []" by (simp add: chunks_inv_def)
  then obtain pre c where res: "result = pre @ [c]"
    by (metis append_butlast_last_id)
  let ?s = "chunk_search c"
  from inv res have ctor: "list_all (\<lambda>c. c = FileChunk_ctor file (chunk_search c)) pre"
    and ch: "chain 0 (map chunk_search pre @ [?s]) (file_size file)"
    and full: "list_all (\<lambda>c. range_end (chunk_search c) - range_begin (chunk_search c) = chunk_size) pre"
    by (simp_all add: chunks_inv_def)
  from ch obtain m where pre: "chain 0 (map chunk_search pre) m" and lastc: "chain m [?s] (file_size file)"
    unfolding chain_append by blast
  from lastc have b: "range_begin ?s = m" and le: "m \<le> range_end ?s" and e: "range_end ?s = file_size file"
    by simp_all
  from chain_le [OF pre] have m0: "0 \<le> m" .
  have int_b: "is_int (range_begin ?s)" and int_e: "is_int (range_end ?s)"
    using m0 b le e size by (simp_all add: is_int_def INT_MIN_def INT_MAX_def)
  from split res have sp: "Range_split ?s = Some (l, r)" by simp
  have le': "range_begin ?s \<le> range_end ?s" using b le by simp
  note parts = Range_split_SomeD [OF int_b int_e le' sp]
  have upd: "result[length result - 1 := FileChunk_ctor file l] @ [FileChunk_ctor file r]
             = (pre @ [FileChunk_ctor file l]) @ [FileChunk_ctor file r]"
    using res by simp
  have sl: "chunk_search (FileChunk_ctor file l) = l" and sr: "chunk_search (FileChunk_ctor file r) = r"
    by (simp_all add: FileChunk_ctor_def)
  have "chain m [l, r] (file_size file)"
    using parts b e by (simp add: chunk_size_def)
  with pre have "chain 0 (map chunk_search pre @ [l, r]) (file_size file)"
    unfolding chain_append by blast
  moreover have "range_end l - range_begin l = chunk_size"
    using parts(1) by simp
  ultimately show ?thesis
    unfolding upd using ctor full sl sr by (simp add: chunks_inv_def butlast_append)
qed

lemma chunks_loop_inv:
  assumes "file_size f \<le> INT_MAX"
  shows "chunks_inv f result \<Longrightarrow>
         chunks_inv f (chunks_loop f result) \<and>
         Range_split (chunk_search (last (chunks_loop f result))) = None"
  using assms
proof (induction f result rule: chunks_loop.induct)
  case (1 f result)
  show ?case
  proof (cases "Range_split (chunk_search (last result))")
    case None
    then have "chunks_loop f result = result"
      by (subst chunks_loop.simps) simp
    with None "1.prems" show ?thesis by simp
  next
    case (Some p)
    obtain l r where p: "p = (l, r)" by (cases p)
    let ?next = "result[length result - 1 := FileChunk_ctor f l] @ [FileChunk_ctor f r]"
    from Some p have eq: "chunks_loop f result = chunks_loop f ?next"
      by (subst chunks_loop.simps) simp
    from Some p have "Range_split (chunk_search (last result)) = Some (l, r)" by simp
    from chunks_inv_step [OF "1.prems"(1) "1.prems"(2) this] have "chunks_inv f ?next" .
    from "1.IH" [OF Some p [symmetric] this "1.prems"(2)] eq show ?thesis by simp
  qed
qed

lemma chunks_inv_chunks:
  assumes "0 \<le> file_size file" and "file_size file \<le> INT_MAX"
  shows "chunks_inv file (chunks file)"
    and "Range_split (chunk_search (last (chunks file))) = None"
  using chunks_loop_inv [OF assms(2) chunks_inv_init [OF assms(1)]]
  by (simp_all add: chunks_def)


lemma Range_size_plain:
  assumes "0 \<le> range_begin r" and "range_begin r \<le> range_end r" and "range_end r \<le> INT_MAX"
  shows "Range_size r = range_end r - range_begin r"
proof -
  have "is_int (range_end r - range_begin r)"
    using assms by (simp add: is_int_def INT_MIN_def INT_MAX_def)
  then show ?thesis by (simp add: Range_size_def wrap_int_id)
qed

lemma chunks_search_facts:
  assumes "0 \<le> file_size f" and "file_size f \<le> INT_MAX" and "c \<in> set (chunks f)"
  shows "c = FileChunk_ctor f (chunk_search c)"
    and "0 \<le> range_begin (chunk_search c)"
    and "range_begin (chunk_search c) \<le> range_end (chunk_search c)"
    and "range_end (chunk_search c) \<le> file_size f"
    and "Range_size (chunk_search c) = range_end (chunk_search c) - range_begin (chunk_search c)"
    and "Range_size (chunk_search c) \<le> chunk_size"
proof -
  note inv = chunks_inv_chunks [OF assms(1,2)]
  from inv(1) have ne: "chunks f \<noteq> []"
    and ctor: "list_all (\<lambda>c. c = FileChunk_ctor f (chunk_search c)) (chunks f)"
    and ch: "chain 0 (map chunk_search (chunks f)) (file_size f)"
    and full: "list_all (\<lambda>c. range_end (chunk_search c) - range_begin (chunk_search c) = chunk_size)
                 (butlast (chunks f))"
    by (simp_all add: chunks_inv_def)
  from ctor assms(3) show "c = FileChunk_ctor f (chunk_search c)"
    by (simp add: list_all_iff)
  from assms(3) have "chunk_search c \<in> set (map chunk_search (chunks f))" by simp
  from chain_bounds [OF ch this]
  show b0: "0 \<le> range_begin (chunk_search c)"
    and be: "range_begin (chunk_search c) \<le> range_end (chunk_search c)"
    and eS: "range_end (chunk_search c) \<le> file_size f"
    by simp_all
  from eS assms(2) have "range_end (chunk_search c) \<le> INT_MAX" by simp
  from Range_size_plain [OF b0 be this]
  show sz: "Range_size (chunk_search c) = range_end (chunk_search c) - range_begin (chunk_search c)" .
  from ne have "chunks f = butlast (chunks f) @ [last (chunks f)]" by simp
  then have "set (chunks f) = set (butlast (chunks f)) \<union> {last (chunks f)}"
    by (metis list.set(1) list.simps(15) set_append)
  with assms(3) consider "c \<in> set (butlast (chunks f))" | "c = last (chunks f)" by blast
  then show "Range_size (chunk_search c) \<le> chunk_size"
  proof cases
    case 1
    with full have "range_end (chunk_search c) - range_begin (chunk_search c) = chunk_size"
      by (simp add: list_all_iff)
    with sz show ?thesis by simp
  next
    case 2
    with inv(2) show ?thesis by (simp add: Range_split_def Let_def split: if_splits)
  qed
qed

text \<open>
  C2. For every file descriptor with size \<open>S \<ge> 0\<close> (an \<open>int\<close>), \<open>chunks\<close>
  produces a non-empty sequence of chunks whose search intervals are ordered and
  contiguous (the first begins at \<open>0\<close>, each begins where the one before ends, the
  last ends at \<open>S\<close>), pairwise disjoint, cover exactly the offsets from \<open>0\<close> up to
  \<open>S\<close>, and each have \<open>size() \<le> chunk_size\<close>, where \<open>size()\<close> is the true
  difference of end and begin.
\<close>

theorem chunks_partition:
  assumes "0 \<le> file_size f" and "file_size f \<le> INT_MAX"
  shows "chunks f \<noteq> [] \<and>
    range_begin (chunk_search (hd (chunks f))) = 0 \<and>
    range_end (chunk_search (last (chunks f))) = file_size f \<and>
    (\<forall>i. Suc i < length (chunks f) \<longrightarrow>
       range_begin (chunk_search (chunks f ! Suc i)) = range_end (chunk_search (chunks f ! i))) \<and>
    (\<forall>i j. i < j \<and> j < length (chunks f) \<longrightarrow>
       range_end (chunk_search (chunks f ! i)) \<le> range_begin (chunk_search (chunks f ! j)) \<and>
       offsets (chunk_search (chunks f ! i)) \<inter> offsets (chunk_search (chunks f ! j)) = {}) \<and>
    (\<Union>c\<in>set (chunks f). offsets (chunk_search c)) = {0 ..< file_size f} \<and>
    (\<forall>c\<in>set (chunks f).
       range_begin (chunk_search c) \<le> range_end (chunk_search c) \<and>
       Range_size (chunk_search c) = range_end (chunk_search c) - range_begin (chunk_search c) \<and>
       Range_size (chunk_search c) \<le> chunk_size)"
proof -
  let ?rs = "map chunk_search (chunks f)"
  from chunks_inv_chunks(1) [OF assms] have ne: "chunks f \<noteq> []"
    and ch: "chain 0 ?rs (file_size f)"
    by (simp_all add: chunks_inv_def)
  from ne have ne': "?rs \<noteq> []" by simp
  have first: "range_begin (chunk_search (hd (chunks f))) = 0"
    using chain_hd [OF ch ne'] ne by (simp add: hd_map)
  have final: "range_end (chunk_search (last (chunks f))) = file_size f"
    using chain_last [OF ch ne'] ne by (simp add: last_map)
  have adj: "range_begin (chunk_search (chunks f ! Suc i)) = range_end (chunk_search (chunks f ! i))"
    if "Suc i < length (chunks f)" for i
    using chain_nth_Suc [OF ch, of i] that by simp
  have ord: "range_end (chunk_search (chunks f ! i)) \<le> range_begin (chunk_search (chunks f ! j))"
    if "i < j" and "j < length (chunks f)" for i j
    using chain_ordered [OF ch, of i j] that by simp
  have disj: "offsets (chunk_search (chunks f ! i)) \<inter> offsets (chunk_search (chunks f ! j)) = {}"
    if "i < j" and "j < length (chunks f)" for i j
    using ord [OF that] by (rule offsets_disjoint)
  have cover: "(\<Union>c\<in>set (chunks f). offsets (chunk_search c)) = {0 ..< file_size f}"
    using chain_offsets [OF ch] by simp
  have each: "range_begin (chunk_search c) \<le> range_end (chunk_search c) \<and>
       Range_size (chunk_search c) = range_end (chunk_search c) - range_begin (chunk_search c) \<and>
       Range_size (chunk_search c) \<le> chunk_size"
    if "c \<in> set (chunks f)" for c
    using chunks_search_facts(3,5,6) [OF assms that] by simp
  from ne first final adj ord disj cover each show ?thesis by blast
qed

lemma chunks_2500000:
  "chunks \<lparr>file_path = ''f'', file_size = 2500000\<rparr> =
     [FileChunk_ctor \<lparr>file_path = ''f'', file_size = 2500000\<rparr> \<lparr>range_begin = 0, range_end = 1000000\<rparr>,
      FileChunk_ctor \<lparr>file_path = ''f'', file_size = 2500000\<rparr> \<lparr>range_begin = 1000000, range_end = 2000000\<rparr>,
      FileChunk_ctor \<lparr>file_path = ''f'', file_size = 2500000\<rparr> \<lparr>range_begin = 2000000, range_end = 2500000\<rparr>]"
  by (simp add: chunks_def chunks_loop.simps Range_split_def Range_size_def wrap_int_def
      chunk_size_def FileChunk_ctor_def)


theorem chunks_partition_witness:
  "(0::int) \<le> 2500000 \<and> 2500000 \<le> INT_MAX \<and>
   map chunk_search (chunks \<lparr>file_path = ''f'', file_size = 2500000\<rparr>) =
     [\<lparr>range_begin = 0, range_end = 1000000\<rparr>,
      \<lparr>range_begin = 1000000, range_end = 2000000\<rparr>,
      \<lparr>range_begin = 2000000, range_end = 2500000\<rparr>] \<and>
   chunks \<lparr>file_path = ''f'', file_size = 2500000\<rparr> \<noteq> [] \<and>
   range_begin (chunk_search (hd (chunks \<lparr>file_path = ''f'', file_size = 2500000\<rparr>))) = 0 \<and>
   range_end (chunk_search (last (chunks \<lparr>file_path = ''f'', file_size = 2500000\<rparr>))) = 2500000 \<and>
   (\<Union>c\<in>set (chunks \<lparr>file_path = ''f'', file_size = 2500000\<rparr>). offsets (chunk_search c))
     = {0 ..< 2500000}"
proof -
  let ?f = "\<lparr>file_path = ''f'', file_size = 2500000\<rparr>"
  have h: "0 \<le> file_size ?f" "file_size ?f \<le> INT_MAX"
    by (simp_all add: INT_MAX_def)
  have m: "map chunk_search (chunks ?f) =
     [\<lparr>range_begin = 0, range_end = 1000000\<rparr>,
      \<lparr>range_begin = 1000000, range_end = 2000000\<rparr>,
      \<lparr>range_begin = 2000000, range_end = 2500000\<rparr>]"
    by (simp add: chunks_2500000 FileChunk_ctor_def)
  from chunks_partition [OF h] have
    "chunks ?f \<noteq> []"
    "range_begin (chunk_search (hd (chunks ?f))) = 0"
    "range_end (chunk_search (last (chunks ?f))) = file_size ?f"
    "(\<Union>c\<in>set (chunks ?f). offsets (chunk_search c)) = {0 ..< file_size ?f}"
    by blast+
  with h m show ?thesis by simp
qed

lemma chunks_read_exact:
  assumes "0 \<le> file_size f" and "file_size f \<le> INT_MAX - 3" and "c \<in> set (chunks f)"
  shows "range_begin (chunk_read c) = max (range_begin (chunk_search c) - border_size) 0"
    and "range_end (chunk_read c) = min (range_end (chunk_search c) + border_size) (file_size f)"
proof -
  have S: "file_size f \<le> INT_MAX" using assms(2) by simp
  note facts = chunks_search_facts [OF assms(1) S assms(3)]
  have "is_int (range_begin (chunk_search c) - border_size)"
    using facts(2,3,4) assms(2) by (simp add: is_int_def INT_MIN_def INT_MAX_def border_size_def)
  then have b: "wrap_int (range_begin (chunk_search c) - border_size) = range_begin (chunk_search c) - border_size"
    by (rule wrap_int_id)
  have "is_int (range_end (chunk_search c) + border_size)"
    using facts(2,3,4) assms(2) by (simp add: is_int_def INT_MIN_def INT_MAX_def border_size_def)
  then have e: "wrap_int (range_end (chunk_search c) + border_size) = range_end (chunk_search c) + border_size"
    by (rule wrap_int_id)
  have rd: "chunk_read c = Range_clamp (Range_extend (chunk_search c) border_size) 0 (file_size f)"
    by (subst facts(1)) (simp add: FileChunk_ctor_def)
  show "range_begin (chunk_read c) = max (range_begin (chunk_search c) - border_size) 0"
    by (simp add: rd Range_clamp_def Range_extend_def b)
  show "range_end (chunk_read c) = min (range_end (chunk_search c) + border_size) (file_size f)"
    by (simp add: rd Range_clamp_def Range_extend_def e)
qed

text \<open>
  C10, as amended. Every chunk that \<open>chunks\<close> produces for a file with
  \<open>0 \<le> size \<le> INT_MAX - 3\<close> satisfies
  \<open>0 \<le> read.begin \<le> search.begin\<close> and \<open>search.end \<le> read.end \<le> file.size\<close>.
  The bound on the size keeps \<open>search.end + border_size\<close> within \<open>int\<close>.
\<close>

theorem chunks_read_invariant:
  assumes "0 \<le> file_size f" and "file_size f \<le> INT_MAX - 3" and "c \<in> set (chunks f)"
  shows "0 \<le> range_begin (chunk_read c) \<and>
         range_begin (chunk_read c) \<le> range_begin (chunk_search c) \<and>
         range_end (chunk_search c) \<le> range_end (chunk_read c) \<and>
         range_end (chunk_read c) \<le> file_size f"
proof -
  have S: "file_size f \<le> INT_MAX" using assms(2) by simp
  note facts = chunks_search_facts [OF assms(1) S assms(3)]
  note rd = chunks_read_exact [OF assms]
  from facts(2,3,4) rd show ?thesis by (simp add: border_size_def)
qed

theorem chunks_read_invariant_witness:
  "(0::int) \<le> 2500000 \<and> 2500000 \<le> INT_MAX - 3 \<and>
   chunks \<lparr>file_path = ''f'', file_size = 2500000\<rparr> ! 1
     \<in> set (chunks \<lparr>file_path = ''f'', file_size = 2500000\<rparr>) \<and>
   chunk_search (chunks \<lparr>file_path = ''f'', file_size = 2500000\<rparr> ! 1)
     = \<lparr>range_begin = 1000000, range_end = 2000000\<rparr> \<and>
   chunk_read (chunks \<lparr>file_path = ''f'', file_size = 2500000\<rparr> ! 1)
     = \<lparr>range_begin = 999997, range_end = 2000003\<rparr> \<and>
   0 \<le> range_begin (chunk_read (chunks \<lparr>file_path = ''f'', file_size = 2500000\<rparr> ! 1)) \<and>
   range_begin (chunk_read (chunks \<lparr>file_path = ''f'', file_size = 2500000\<rparr> ! 1))
     \<le> range_begin (chunk_search (chunks \<lparr>file_path = ''f'', file_size = 2500000\<rparr> ! 1)) \<and>
   range_end (chunk_search (chunks \<lparr>file_path = ''f'', file_size = 2500000\<rparr> ! 1))
     \<le> range_end (chunk_read (chunks \<lparr>file_path = ''f'', file_size = 2500000\<rparr> ! 1)) \<and>
   range_end (chunk_read (chunks \<lparr>file_path = ''f'', file_size = 2500000\<rparr> ! 1)) \<le> 2500000"
proof -
  let ?f = "\<lparr>file_path = ''f'', file_size = 2500000\<rparr>"
  have h: "0 \<le> file_size ?f" "file_size ?f \<le> INT_MAX - 3"
    by (simp_all add: INT_MAX_def)
  have len: "length (chunks ?f) = 3"
    by (simp add: chunks_2500000)
  then have mem: "chunks ?f ! 1 \<in> set (chunks ?f)"
    by (intro nth_mem) simp
  have se: "chunk_search (chunks ?f ! 1) = \<lparr>range_begin = 1000000, range_end = 2000000\<rparr>"
    by (simp add: chunks_2500000 FileChunk_ctor_def)
  have rd: "chunk_read (chunks ?f ! 1) = \<lparr>range_begin = 999997, range_end = 2000003\<rparr>"
    by (simp add: chunks_2500000 FileChunk_ctor_def Range_clamp_def Range_extend_def
        wrap_int_def border_size_def)
  from chunks_read_invariant [OF h mem] h mem se rd show ?thesis
    by simp
qed

text \<open>
  C10 as stated fails for a file of \<open>INT_MAX\<close> bytes: for the last chunk
  \<open>search.end + border_size\<close> leaves the range of \<open>int\<close>, and the read interval ends
  below the search interval.
\<close>

theorem chunks_read_invariant_counterexample:
  "(0::int) \<le> file_size \<lparr>file_path = ''f'', file_size = 2147483647\<rparr> \<and>
   last (chunks \<lparr>file_path = ''f'', file_size = 2147483647\<rparr>)
     \<in> set (chunks \<lparr>file_path = ''f'', file_size = 2147483647\<rparr>) \<and>
   range_end (chunk_search (last (chunks \<lparr>file_path = ''f'', file_size = 2147483647\<rparr>)))
     = 2147483647 \<and>
   range_end (chunk_read (last (chunks \<lparr>file_path = ''f'', file_size = 2147483647\<rparr>)))
     = - 2147483646 \<and>
   \<not> range_end (chunk_search (last (chunks \<lparr>file_path = ''f'', file_size = 2147483647\<rparr>)))
       \<le> range_end (chunk_read (last (chunks \<lparr>file_path = ''f'', file_size = 2147483647\<rparr>)))"
proof -
  let ?f = "\<lparr>file_path = ''f'', file_size = 2147483647\<rparr>"
  let ?c = "last (chunks ?f)"
  have h: "0 \<le> file_size ?f" "file_size ?f \<le> INT_MAX"
    by (simp_all add: INT_MAX_def)
  from chunks_inv_chunks(1) [OF h] have ne: "chunks ?f \<noteq> []"
    and ch: "chain 0 (map chunk_search (chunks ?f)) (file_size ?f)"
    by (simp_all add: chunks_inv_def)
  from ne have mem: "?c \<in> set (chunks ?f)" by simp
  from chain_last [OF ch] ne have e: "range_end (chunk_search ?c) = 2147483647"
    by (simp add: last_map)
  from chunks_search_facts(1) [OF h mem]
  have "chunk_read ?c = Range_clamp (Range_extend (chunk_search ?c) border_size) 0 (file_size ?f)"
    by (metis FileChunk.select_convs(3) FileChunk_ctor_def)
  then have r: "range_end (chunk_read ?c) = - 2147483646"
    by (simp add: Range_clamp_def Range_extend_def e wrap_int_def border_size_def)
  from mem e r show ?thesis by simp
qed

section \<open>Escaping\<close>

lemma transform_loop_escaped: "transform_loop acc s = acc @ escaped s"
  by (induction s arbitrary: acc) (simp_all add: escaped_def escape_char_def)

lemma transform_escaped: "transform s = escaped s"
  using transform_loop_escaped [of "[]" s] by (simp add: transform_def)

lemma length_escaped: "length (escaped s) \<le> 2 * length s"
  by (induction s) (simp_all add: escaped_def escape_char_def)

lemma length_transform: "length (transform s) \<le> 2 * length s"
  by (simp add: transform_escaped length_escaped)

lemma escaped_replicate:
  "c \<noteq> CHR 0x0A \<Longrightarrow> c \<noteq> CHR 0x09 \<Longrightarrow> escaped (replicate n c @ s) = replicate n c @ escaped s"
  by (induction n) (simp_all add: escaped_def escape_char_def)

text \<open>
  C6. For every input string, \<open>transform\<close> replaces each newline by the two
  characters backslash and \<open>n\<close>, each tab by backslash and \<open>t\<close>, and keeps every
  other byte, in the order of the input: the result is the concatenation of the escaped
  characters.
\<close>

theorem transform_escapes: "transform s = concat (map escape_char s)"
  using transform_loop_escaped [of "[]" s] by (simp add: transform_def escaped_def)

section \<open>The string search of the library\<close>

lemma string_find_occurs:
  "string_find s str pos = Some q \<Longrightarrow> pos \<le> q \<and> occurs_at s str q"
proof (induction s str pos rule: string_find.induct)
  case (1 s str pos)
  then show ?case
    by (subst (asm) (2) string_find.simps) (auto simp: occurs_at_def split: if_splits)
qed

lemma string_find_least:
  "string_find s str pos = Some q \<Longrightarrow> pos \<le> i \<Longrightarrow> i < q \<Longrightarrow> \<not> occurs_at s str i"
proof (induction s str pos rule: string_find.induct)
  case (1 s str pos)
  from "1.prems"(1) have c: "\<not> length s < pos + length str"
    by (subst (asm) string_find.simps) (simp split: if_splits)
  show ?case
  proof (cases "take (length str) (drop pos s) = str")
    case True
    with c "1.prems"(1) have "q = pos"
      by (subst (asm) string_find.simps) simp
    with "1.prems" show ?thesis by simp
  next
    case False
    with c "1.prems"(1) have nxt: "string_find s str (Suc pos) = Some q"
      by (subst (asm) string_find.simps) simp
    show ?thesis
    proof (cases "i = pos")
      case True
      with False show ?thesis by (simp add: occurs_at_def)
    next
      case False
      with "1.prems" have "Suc pos \<le> i" by simp
      from "1.IH" [OF c \<open>take (length str) (drop pos s) \<noteq> str\<close> nxt this "1.prems"(3)]
      show ?thesis .
    qed
  qed
qed

lemma string_find_None:
  "string_find s str pos = None \<Longrightarrow> pos \<le> i \<Longrightarrow> \<not> occurs_at s str i"
proof (induction s str pos rule: string_find.induct)
  case (1 s str pos)
  show ?case
  proof (cases "length s < pos + length str")
    case True
    with "1.prems"(2) show ?thesis by (simp add: occurs_at_def)
  next
    case c: False
    with "1.prems"(1) have no: "take (length str) (drop pos s) \<noteq> str"
      by (subst (asm) string_find.simps) (simp split: if_splits)
    with c "1.prems"(1) have nxt: "string_find s str (Suc pos) = None"
      by (subst (asm) string_find.simps) simp
    show ?thesis
    proof (cases "i = pos")
      case True
      with no show ?thesis by (simp add: occurs_at_def)
    next
      case False
      with "1.prems" have "Suc pos \<le> i" by simp
      from "1.IH" [OF c no nxt this] show ?thesis .
    qed
  qed
qed

lemma string_find_first:
  assumes "pos \<le> q" and "occurs_at s str q"
    and "\<And>i. pos \<le> i \<Longrightarrow> i < q \<Longrightarrow> \<not> occurs_at s str i"
  shows "string_find s str pos = Some q"
proof (cases "string_find s str pos")
  case None
  from string_find_None [OF None assms(1)] assms(2) show ?thesis by simp
next
  case (Some q')
  from string_find_occurs [OF Some] have q': "pos \<le> q'" "occurs_at s str q'" by simp_all
  have "\<not> q' < q" using assms(3) [of q'] q' by blast
  moreover have "\<not> q < q'" using string_find_least [OF Some assms(1)] assms(2) by blast
  ultimately show ?thesis using Some by simp
qed

lemma string_find_beyond: "length s < pos + length str \<Longrightarrow> string_find s str pos = None"
  by (subst string_find.simps) simp

lemma not_occurs_at_nth:
  assumes "i < length s" and "str \<noteq> []" and "s ! i \<noteq> hd str"
  shows "\<not> occurs_at s str i"
proof
  assume "occurs_at s str i"
  then have "take (length str) (drop i s) = str" by (simp add: occurs_at_def)
  then have "hd (take (length str) (drop i s)) = hd str" by simp
  moreover have "hd (take (length str) (drop i s)) = s ! i"
    using assms(1,2) by (simp add: hd_drop_conv_nth)
  ultimately show False using assms(3) by simp
qed

section \<open>The matcher on a chunk whose read interval begins at the start of the file\<close>

lemma size_t_of_int_nat: "int k \<le> INT_MAX \<Longrightarrow> size_t_of_int (int k) = k"
  by (simp add: size_t_of_int_def INT_MAX_def)

lemma int_of_size_t_nat: "int k \<le> INT_MAX \<Longrightarrow> int_of_size_t k = int k"
  by (simp add: int_of_size_t_def wrap_int_id is_int_def INT_MAX_def INT_MIN_def)

lemma prefix_nat:
  assumes "int i \<le> INT_MAX" and "i \<le> length s"
  shows "prefix s (int i) = Inr (drop (i - nat border_size) (take i s))"
proof -
  have "is_int (int i - border_size)"
    using assms(1) by (simp add: is_int_def INT_MAX_def INT_MIN_def border_size_def)
  then have "wrap_int (int i - border_size) = int i - border_size"
    by (rule wrap_int_id)
  then have off: "max (wrap_int (int i - border_size)) 0 = int (i - nat border_size)"
    by (simp add: border_size_def)
  have "is_int (int i - int (i - nat border_size))"
    using assms(1) by (simp add: is_int_def INT_MAX_def INT_MIN_def border_size_def)
  then have "wrap_int (int i - int (i - nat border_size)) = int i - int (i - nat border_size)"
    by (rule wrap_int_id)
  also have "\<dots> = int (i - (i - nat border_size))"
    by simp
  finally have cnt: "wrap_int (int i - int (i - nat border_size)) = int (i - (i - nat border_size))" .
  have a: "size_t_of_int (int (i - nat border_size)) = i - nat border_size"
    using assms(1) by (intro size_t_of_int_nat) simp
  have b: "size_t_of_int (int (i - (i - nat border_size))) = i - (i - nat border_size)"
    using assms(1) by (intro size_t_of_int_nat) simp
  have "prefix s (int i) = substr s (i - nat border_size) (i - (i - nat border_size))"
    by (simp only: prefix_def Let_def off cnt a b)
  also have "\<dots> = Inr (take (i - (i - nat border_size)) (drop (i - nat border_size) s))"
    using assms(2) by (simp add: substr_def)
  also have "take (i - (i - nat border_size)) (drop (i - nat border_size) s)
             = drop (i - nat border_size) (take i s)"
    by (simp add: drop_take)
  finally show ?thesis .
qed

lemma suffix_nat:
  assumes "int k \<le> INT_MAX" and "k \<le> length s"
  shows "suffix s (int k) = Inr (take (nat border_size) (drop k s))"
proof -
  have "size_t_of_int border_size = nat border_size"
    by (simp add: size_t_of_int_def border_size_def)
  with assms show ?thesis
    by (simp add: suffix_def substr_def size_t_of_int_nat)
qed

lemma filter_upt_none:
  "(\<And>i. a \<le> i \<Longrightarrow> i < b \<Longrightarrow> \<not> P i) \<Longrightarrow> filter P [a ..< b] = []"
  by (simp add: filter_empty_conv)

lemma filter_upt_first:
  assumes "a \<le> q" and "q < b" and "P q" and "\<And>i. a \<le> i \<Longrightarrow> i < q \<Longrightarrow> \<not> P i"
  shows "filter P [a ..< b] = q # filter P [Suc q ..< b]"
proof -
  have "[a ..< b] = [a ..< q] @ q # [Suc q ..< b]"
    using assms(1,2) by (metis le_Suc_ex less_imp_le_nat upt_add_eq_append upt_conv_Cons)
  moreover have "filter P [a ..< q] = []"
    using assms(4) by (intro filter_upt_none) blast
  ultimately show ?thesis using assms(3) by simp
qed

text \<open>
  On a chunk whose read interval begins at offset \<open>0\<close> an index into the contents is
  an offset into the file, and the matcher returns the records asked for, one for each
  occurrence that starts between the bounds of the scan, in the order of the occurrences.
\<close>

lemma matches_loop_first:
  assumes "range_begin (chunk_read chunk) = 0"
    and "int (length (chunk_contents chunk)) \<le> INT_MAX"
  shows "po = string_find (chunk_contents chunk) str p \<Longrightarrow>
         matches_loop chunk str po acc =
           Inr (acc @ map (spec_match chunk str)
                        (filter (occurs_at (chunk_contents chunk) str) [p ..< scan_end chunk]))"
  using assms
proof (induction chunk str po acc arbitrary: p rule: matches_loop.induct)
  case (1 chunk str result)
  from "1.prems"(1) have none: "string_find (chunk_contents chunk) str p = None" by simp
  have "filter (occurs_at (chunk_contents chunk) str) [p ..< scan_end chunk] = []"
    using string_find_None [OF none] by (intro filter_upt_none) blast
  then show ?case by (simp add: matches_loop.simps)
next
  case (2 chunk str pos result)
  let ?s = "chunk_contents chunk"
  from "2.prems"(1) have found: "string_find ?s str p = Some pos" by simp
  from string_find_occurs [OF found] have ple: "p \<le> pos" and occ: "occurs_at ?s str pos"
    by simp_all
  note least = string_find_least [OF found]
  show ?case
  proof (cases "pos < scan_end chunk")
    case False
    have "filter (occurs_at ?s str) [p ..< scan_end chunk] = []"
      using least False by (intro filter_upt_none) simp
    with False show ?thesis by (simp add: matches_loop.simps scan_end_def)
  next
    case True
    from occ have fits: "pos + length str \<le> length ?s" by (simp add: occurs_at_def)
    with "2.prems"(3) have small: "int pos \<le> INT_MAX" "int (pos + length str) \<le> INT_MAX"
      by simp_all
    have ipos: "int_of_size_t pos = int pos"
      using small(1) by (rule int_of_size_t_nat)
    have iend: "int_of_size_t (pos + length str) = int (pos + length str)"
      using small(2) by (rule int_of_size_t_nat)
    have ti: "to_index chunk (int pos) = int pos"
      using small(1) "2.prems"(2)
      by (simp add: to_index_def wrap_int_id is_int_def INT_MIN_def INT_MAX_def)
    have te: "to_index chunk (int (pos + length str)) = int (pos + length str)"
      using small(2) "2.prems"(2)
      by (simp add: to_index_def wrap_int_id is_int_def INT_MIN_def INT_MAX_def)
    let ?p = "drop (pos - nat border_size) (take pos ?s)"
    let ?q = "take (nat border_size) (drop (pos + length str) ?s)"
    have pre: "prefix ?s (to_index chunk (int_of_size_t pos)) = Inr ?p"
      unfolding ipos ti using small(1) fits by (intro prefix_nat) simp_all
    have suf: "suffix ?s (to_index chunk (int_of_size_t (pos + length str))) = Inr ?q"
      unfolding iend te using small(2) fits by (intro suffix_nat) simp_all
    let ?m = "\<lparr>match_path = file_path (chunk_file chunk),
               match_position = int_of_size_t pos,
               match_prefix = transform ?p,
               match_suffix = transform ?q\<rparr>"
    have m: "?m = spec_match chunk str pos"
      using "2.prems"(2) by (simp add: spec_match_def ipos)
    from True have guard: "pos < size_t_of_int (to_index chunk (range_end (chunk_search chunk)))"
      by (simp add: scan_end_def)
    have step: "matches_loop chunk str (Some pos) result =
                matches_loop chunk str (string_find ?s str (pos + 1)) (result @ [?m])"
      by (subst matches_loop.simps) (simp only: guard pre suf if_True sum.case)
    have "matches_loop chunk str (string_find ?s str (pos + 1)) (result @ [?m]) =
            Inr ((result @ [?m]) @ map (spec_match chunk str)
                   (filter (occurs_at ?s str) [pos + 1 ..< scan_end chunk]))"
      by (rule "2.IH" [OF guard pre suf refl "2.prems"(2,3)])
    moreover have "filter (occurs_at ?s str) [p ..< scan_end chunk]
                   = pos # filter (occurs_at ?s str) [Suc pos ..< scan_end chunk]"
      using ple True occ least by (intro filter_upt_first) simp_all
    ultimately show ?thesis
      using step m by simp
  qed
qed

lemma matches_first:
  assumes "range_begin (chunk_read chunk) = 0"
    and "int (length (chunk_contents chunk)) \<le> INT_MAX"
  shows "matches chunk str =
           Inr (map (spec_match chunk str)
                  (filter (occurs_at (chunk_contents chunk) str) [scan_begin chunk ..< scan_end chunk]))"
  using matches_loop_first [OF assms refl, of str "scan_begin chunk" "[]"]
  by (simp add: matches_def scan_begin_def)

lemma fetch_contents_Inr:
  assumes "fetch_contents d c = Inr chunk"
  shows "chunk_file chunk = chunk_file c" and "chunk_search chunk = chunk_search c"
    and "chunk_read chunk = chunk_read c"
    and "int (length (chunk_contents chunk)) = Range_size (chunk_read c)"
    and "int (length (chunk_contents chunk)) \<le> INT_MAX"
proof -
  let ?n = "Range_size (chunk_read c)"
  from assms have n: "0 \<le> ?n"
    by (simp add: fetch_contents_def Let_def split: if_splits)
  define got where "got =
     (case d (file_path (chunk_file c)) of
        None \<Rightarrow> []
      | Some bytes \<Rightarrow>
          if range_begin (chunk_read c) < 0 then []
          else take (nat ?n) (drop (nat (range_begin (chunk_read c))) bytes))"
  have got: "length got \<le> nat ?n"
    by (simp add: got_def split: option.splits)
  from assms n
  have chunk: "chunk = c\<lparr>chunk_contents := got @ replicate (nat ?n - length got) (CHR 0x00)\<rparr>"
    by (simp add: fetch_contents_def Let_def got_def)
  from chunk show "chunk_file chunk = chunk_file c" "chunk_search chunk = chunk_search c"
    "chunk_read chunk = chunk_read c"
    by simp_all
  from chunk got n show len: "int (length (chunk_contents chunk)) = ?n"
    by simp
  from wrap_int_range [of "range_end (chunk_read c) - range_begin (chunk_read c)"]
  have "?n \<le> INT_MAX"
    by (simp add: Range_size_def is_int_def)
  with len show "int (length (chunk_contents chunk)) \<le> INT_MAX" by simp
qed

text \<open>
  A file of at most \<open>chunk_size\<close> bytes is a single chunk, and the search of the
  chunk reports every occurrence in the file, once, with its offset and its context.
\<close>

lemma small_file_chunks:
  assumes "file_size f \<le> chunk_size" and "is_int (file_size f)"
  shows "chunks f = [FileChunk_ctor f \<lparr>range_begin = 0, range_end = file_size f\<rparr>]"
proof -
  have "Range_size \<lparr>range_begin = 0, range_end = file_size f\<rparr> = file_size f"
    using assms(2) by (simp add: Range_size_def wrap_int_id)
  with assms(1) have "Range_split \<lparr>range_begin = 0, range_end = file_size f\<rparr> = None"
    by (simp add: Range_split_def)
  then show ?thesis
    by (simp add: chunks_def chunks_loop.simps FileChunk_ctor_def)
qed

lemma small_file_search:
  assumes "d p = Some bytes" and "int (length bytes) \<le> chunk_size"
  shows "chunks (File_ctor d p) =
           [FileChunk_ctor (File_ctor d p) \<lparr>range_begin = 0, range_end = int (length bytes)\<rparr>]"
    and "search d (FileChunk_ctor (File_ctor d p) \<lparr>range_begin = 0, range_end = int (length bytes)\<rparr>) str
         = Inr (map (\<lambda>i. \<lparr>match_path = p, match_position = int i,
                   match_prefix = transform (drop (i - nat border_size) (take i bytes)),
                   match_suffix = transform (take (nat border_size) (drop (i + length str) bytes))\<rparr>)
                 (filter (occurs_at bytes str) [0 ..< length bytes]))"
proof -
  let ?n = "int (length bytes)"
  have int_n: "is_int ?n"
    using assms(2) by (simp add: is_int_def INT_MIN_def INT_MAX_def chunk_size_def)
  have f: "File_ctor d p = \<lparr>file_path = p, file_size = ?n\<rparr>"
    using assms(1) int_n by (simp add: File_ctor_def wrap_int_id)
  let ?f = "\<lparr>file_path = p, file_size = ?n\<rparr>"
  let ?c = "FileChunk_ctor ?f \<lparr>range_begin = 0, range_end = ?n\<rparr>"
  show "chunks (File_ctor d p) = [FileChunk_ctor (File_ctor d p) \<lparr>range_begin = 0, range_end = ?n\<rparr>]"
    unfolding f using assms(2) int_n by (intro small_file_chunks [of ?f, simplified]) simp_all
  have e: "wrap_int (?n + border_size) = ?n + border_size"
    using assms(2) by (intro wrap_int_id) (simp add: is_int_def INT_MIN_def INT_MAX_def chunk_size_def border_size_def)
  have c: "?c = \<lparr>chunk_file = ?f, chunk_search = \<lparr>range_begin = 0, range_end = ?n\<rparr>,
                 chunk_read = \<lparr>range_begin = 0, range_end = ?n\<rparr>, chunk_contents = []\<rparr>"
    by (simp add: FileChunk_ctor_def Range_clamp_def Range_extend_def e)
      (simp add: wrap_int_def border_size_def)
  have sz: "Range_size \<lparr>range_begin = 0, range_end = ?n\<rparr> = ?n"
    using int_n by (simp add: Range_size_def wrap_int_id)
  have fetch: "fetch_contents d ?c = Inr (?c\<lparr>chunk_contents := bytes\<rparr>)"
    using assms(1) by (simp add: c fetch_contents_def sz Let_def)
  let ?c' = "?c\<lparr>chunk_contents := bytes\<rparr>"
  have "matches ?c' str =
          Inr (map (spec_match ?c' str) (filter (occurs_at (chunk_contents ?c') str)
                 [scan_begin ?c' ..< scan_end ?c']))"
    using assms(2) by (intro matches_first) (simp_all add: c INT_MAX_def chunk_size_def)
  moreover have "scan_begin ?c' = 0"
    by (simp add: c scan_begin_def to_index_def wrap_int_def size_t_of_int_def)
  moreover have "scan_end ?c' = length bytes"
    using int_n by (simp add: c scan_end_def to_index_def wrap_int_id size_t_of_int_nat is_int_def)
  moreover have "spec_match ?c' str = (\<lambda>i. \<lparr>match_path = p, match_position = int i,
                   match_prefix = transform (drop (i - nat border_size) (take i bytes)),
                   match_suffix = transform (take (nat border_size) (drop (i + length str) bytes))\<rparr>)"
    by (rule ext) (simp add: c spec_match_def)
  ultimately have "matches ?c' str = Inr (map (\<lambda>i. \<lparr>match_path = p, match_position = int i,
                   match_prefix = transform (drop (i - nat border_size) (take i bytes)),
                   match_suffix = transform (take (nat border_size) (drop (i + length str) bytes))\<rparr>)
                 (filter (occurs_at bytes str) [0 ..< length bytes]))"
    by (simp add: c)
  with fetch show "search d (FileChunk_ctor (File_ctor d p) \<lparr>range_begin = 0, range_end = ?n\<rparr>) str
         = Inr (map (\<lambda>i. \<lparr>match_path = p, match_position = int i,
                   match_prefix = transform (drop (i - nat border_size) (take i bytes)),
                   match_suffix = transform (take (nat border_size) (drop (i + length str) bytes))\<rparr>)
                 (filter (occurs_at bytes str) [0 ..< length bytes]))"
    unfolding f by (simp add: search_def)
qed

text \<open>
  The definitions that a run of the program on a concrete input unfolds.
\<close>

lemmas eval_defs =
  chunks_def chunks_loop.simps FileChunk_ctor_def File_ctor_def
  Range_split_def Range_size_def Range_clamp_def Range_extend_def
  wrap_int_def border_size_def chunk_size_def
  search_def fetch_contents_def matches_def matches_loop.simps string_find.simps
  to_index_def size_t_of_int_def int_of_size_t_def
  prefix_def suffix_def substr_def transform_def Let_def

text \<open>
  The examples of the specification: \<open>abc\<close> in \<open>abcabc\<close> is found at
  \<open>0\<close> and \<open>3\<close>; in \<open>xxabcxx\<close> it is found at \<open>2\<close> with prefix and suffix
  \<open>xx\<close>; the overlapping occurrences of \<open>aa\<close> in \<open>aaa\<close> are found at \<open>0\<close>
  and \<open>1\<close>.
\<close>

lemma matcher_abcabc:
  "search (\<lambda>p. Some ''abcabc'') (hd (chunks (File_ctor (\<lambda>p. Some ''abcabc'') ''f''))) ''abc''
   = Inr [\<lparr>match_path = ''f'', match_position = 0, match_prefix = [], match_suffix = ''abc''\<rparr>,
          \<lparr>match_path = ''f'', match_position = 3, match_prefix = ''abc'', match_suffix = []\<rparr>]"
  by (simp add: eval_defs)

lemma matcher_xxabcxx:
  "search (\<lambda>p. Some ''xxabcxx'') (hd (chunks (File_ctor (\<lambda>p. Some ''xxabcxx'') ''f''))) ''abc''
   = Inr [\<lparr>match_path = ''f'', match_position = 2, match_prefix = ''xx'', match_suffix = ''xx''\<rparr>]"
  by (simp add: eval_defs)

lemma matcher_aaa:
  "search (\<lambda>p. Some ''aaa'') (hd (chunks (File_ctor (\<lambda>p. Some ''aaa'') ''f''))) ''aa''
   = Inr [\<lparr>match_path = ''f'', match_position = 0, match_prefix = [], match_suffix = ''a''\<rparr>,
          \<lparr>match_path = ''f'', match_position = 1, match_prefix = ''a'', match_suffix = []\<rparr>]"
  by (simp add: eval_defs)

text \<open>
  C5, as amended. For every fetched chunk whose read interval begins at offset \<open>0\<close>
  and every search string the matcher returns, and for every match it reports the prefix
  is the escaping transform of at most \<open>border_size\<close> characters of the contents,
  those immediately before the match start, and the suffix is the escaping transform of at
  most \<open>border_size\<close> characters, those immediately after the match end, both clipped
  at the boundaries of the contents. The bound of \<open>border_size\<close> holds before the
  escaping; after it each string has at most twice as many characters.
\<close>

theorem first_chunk_context_bounded:
  assumes "fetch_contents d c = Inr chunk" and "range_begin (chunk_read c) = 0"
  shows "\<exists>ms. matches chunk str = Inr ms \<and>
           (\<forall>m\<in>set ms. \<exists>i p q.
              occurs_at (chunk_contents chunk) str i \<and>
              match_position m = int i \<and>
              p = drop (i - nat border_size) (take i (chunk_contents chunk)) \<and>
              q = take (nat border_size) (drop (i + length str) (chunk_contents chunk)) \<and>
              match_prefix m = transform p \<and>
              match_suffix m = transform q \<and>
              int (length p) \<le> border_size \<and>
              int (length q) \<le> border_size \<and>
              int (length (match_prefix m)) \<le> 2 * border_size \<and>
              int (length (match_suffix m)) \<le> 2 * border_size)"
proof -
  note f = fetch_contents_Inr [OF assms(1)]
  from f(3) assms(2) have rb: "range_begin (chunk_read chunk) = 0" by simp
  let ?s = "chunk_contents chunk"
  let ?is = "filter (occurs_at ?s str) [scan_begin chunk ..< scan_end chunk]"
  have ms: "matches chunk str = Inr (map (spec_match chunk str) ?is)"
    using rb f(5) by (rule matches_first)
  have "\<exists>i p q.
              occurs_at ?s str i \<and>
              match_position m = int i \<and>
              p = drop (i - nat border_size) (take i ?s) \<and>
              q = take (nat border_size) (drop (i + length str) ?s) \<and>
              match_prefix m = transform p \<and>
              match_suffix m = transform q \<and>
              int (length p) \<le> border_size \<and>
              int (length q) \<le> border_size \<and>
              int (length (match_prefix m)) \<le> 2 * border_size \<and>
              int (length (match_suffix m)) \<le> 2 * border_size"
    if "m \<in> set (map (spec_match chunk str) ?is)" for m
  proof -
    from that obtain i where i: "occurs_at ?s str i" and m: "m = spec_match chunk str i"
      by auto
    let ?p = "drop (i - nat border_size) (take i ?s)"
    let ?q = "take (nat border_size) (drop (i + length str) ?s)"
    have lp: "int (length ?p) \<le> border_size"
      by (simp add: border_size_def)
    have lq: "int (length ?q) \<le> border_size"
      by (simp add: border_size_def)
    have "int (length (transform ?p)) \<le> 2 * border_size"
      using length_transform [of ?p] lp by linarith
    moreover have "int (length (transform ?q)) \<le> 2 * border_size"
      using length_transform [of ?q] lq by linarith
    ultimately show ?thesis
      using i m rb lp lq by (simp add: spec_match_def)
  qed
  with ms show ?thesis by blast
qed

theorem first_chunk_context_bounded_witness:
  "fetch_contents (\<lambda>p. Some ''xxabcxx'')
     (FileChunk_ctor \<lparr>file_path = ''f'', file_size = 7\<rparr> \<lparr>range_begin = 0, range_end = 7\<rparr>)
   = Inr ((FileChunk_ctor \<lparr>file_path = ''f'', file_size = 7\<rparr> \<lparr>range_begin = 0, range_end = 7\<rparr>)
            \<lparr>chunk_contents := ''xxabcxx''\<rparr>) \<and>
   range_begin (chunk_read
     (FileChunk_ctor \<lparr>file_path = ''f'', file_size = 7\<rparr> \<lparr>range_begin = 0, range_end = 7\<rparr>)) = 0 \<and>
   matches ((FileChunk_ctor \<lparr>file_path = ''f'', file_size = 7\<rparr> \<lparr>range_begin = 0, range_end = 7\<rparr>)
            \<lparr>chunk_contents := ''xxabcxx''\<rparr>) ''abc''
   = Inr [\<lparr>match_path = ''f'', match_position = 2, match_prefix = ''xx'', match_suffix = ''xx''\<rparr>] \<and>
   (\<exists>ms. matches ((FileChunk_ctor \<lparr>file_path = ''f'', file_size = 7\<rparr> \<lparr>range_begin = 0, range_end = 7\<rparr>)
            \<lparr>chunk_contents := ''xxabcxx''\<rparr>) ''abc'' = Inr ms \<and>
         list_all (\<lambda>m. int (length (match_prefix m)) \<le> 2 * border_size \<and>
                         int (length (match_suffix m)) \<le> 2 * border_size) ms)"
proof -
  let ?d = "\<lambda>p::string. Some ''xxabcxx''"
  let ?c = "FileChunk_ctor \<lparr>file_path = ''f'', file_size = 7\<rparr> \<lparr>range_begin = 0, range_end = 7\<rparr>"
  let ?c' = "?c\<lparr>chunk_contents := ''xxabcxx''\<rparr>"
  have h1: "fetch_contents ?d ?c = Inr ?c'"
    by (simp add: eval_defs)
  have h2: "range_begin (chunk_read ?c) = 0"
    by (simp add: eval_defs)
  have ev: "matches ?c' ''abc''
     = Inr [\<lparr>match_path = ''f'', match_position = 2, match_prefix = ''xx'', match_suffix = ''xx''\<rparr>]"
    by (simp add: eval_defs)
  from first_chunk_context_bounded [OF h1 h2, of "''abc''"]
  have "\<exists>ms. matches ?c' ''abc'' = Inr ms \<and>
         list_all (\<lambda>m. int (length (match_prefix m)) \<le> 2 * border_size \<and>
                         int (length (match_suffix m)) \<le> 2 * border_size) ms"
    unfolding list_all_iff by blast
  with h1 h2 ev show ?thesis by blast
qed

text \<open>
  C5 as stated fails: in a file that holds three newlines and then \<open>a\<close>, the match
  of \<open>a\<close> has a prefix of six characters after the escaping, more than
  \<open>border_size\<close>.
\<close>

theorem context_bound_counterexample:
  "search (\<lambda>p. Some [CHR 0x0A, CHR 0x0A, CHR 0x0A, CHR ''a''])
     (hd (chunks (File_ctor (\<lambda>p. Some [CHR 0x0A, CHR 0x0A, CHR 0x0A, CHR ''a'']) ''f''))) ''a''
   = Inr [\<lparr>match_path = ''f'', match_position = 3,
             match_prefix = [CHR 0x5C, CHR ''n'', CHR 0x5C, CHR ''n'', CHR 0x5C, CHR ''n''],
             match_suffix = []\<rparr>] \<and>
   \<not> int (length [CHR 0x5C, CHR ''n'', CHR 0x5C, CHR ''n'', CHR 0x5C, CHR ''n'']) \<le> border_size"
  by (simp add: eval_defs)

section \<open>The matcher on the later chunks of a file\<close>

text \<open>
  Whatever the chunk, a position that the matcher reports is an index into the contents
  of the chunk at which the string occurs, between the bounds of the scan. It is the
  offset into the file only when the read interval begins at offset \<open>0\<close>.
\<close>

lemma matches_loop_positions:
  "matches_loop chunk str po acc = Inr ms \<Longrightarrow>
   (\<And>pos. po = Some pos \<Longrightarrow> occurs_at (chunk_contents chunk) str pos \<and> lo \<le> pos) \<Longrightarrow>
   (\<And>m. m \<in> set acc \<Longrightarrow>
      \<exists>i. occurs_at (chunk_contents chunk) str i \<and> lo \<le> i \<and> i < scan_end chunk \<and>
          match_position m = int_of_size_t i) \<Longrightarrow>
   m \<in> set ms \<Longrightarrow>
   \<exists>i. occurs_at (chunk_contents chunk) str i \<and> lo \<le> i \<and> i < scan_end chunk \<and>
       match_position m = int_of_size_t i"
proof (induction chunk str po acc rule: matches_loop.induct)
  case (1 chunk str result)
  then show ?case by (simp add: matches_loop.simps)
next
  case (2 chunk str pos result)
  let ?s = "chunk_contents chunk"
  show ?case
  proof (cases "pos < scan_end chunk")
    case False
    with "2.prems"(1) have "ms = result"
      by (simp add: matches_loop.simps scan_end_def)
    with "2.prems"(3,4) show ?thesis by blast
  next
    case True
    then have guard: "pos < size_t_of_int (to_index chunk (range_end (chunk_search chunk)))"
      by (simp add: scan_end_def)
    from "2.prems"(1) guard obtain p where
      pre: "prefix ?s (to_index chunk (int_of_size_t pos)) = Inr p"
      by (cases "prefix ?s (to_index chunk (int_of_size_t pos))")
        (simp_all add: matches_loop.simps)
    from "2.prems"(1) guard pre obtain q where
      suf: "suffix ?s (to_index chunk (int_of_size_t (pos + length str))) = Inr q"
      by (cases "suffix ?s (to_index chunk (int_of_size_t (pos + length str)))")
        (simp_all add: matches_loop.simps)
    let ?m = "\<lparr>match_path = file_path (chunk_file chunk),
               match_position = int_of_size_t pos,
               match_prefix = transform p,
               match_suffix = transform q\<rparr>"
    from "2.prems"(1) guard pre suf
    have run: "matches_loop chunk str (string_find ?s str (pos + 1)) (result @ [?m]) = Inr ms"
      by (simp add: matches_loop.simps)
    from "2.prems"(2) [OF refl] have here: "occurs_at ?s str pos" "lo \<le> pos"
      by simp_all
    have occ: "occurs_at ?s str pos' \<and> lo \<le> pos'"
      if "string_find ?s str (pos + 1) = Some pos'" for pos'
      using string_find_occurs [OF that] here(2) by simp
    have acc: "\<exists>i. occurs_at ?s str i \<and> lo \<le> i \<and> i < scan_end chunk \<and>
                 match_position m' = int_of_size_t i"
      if "m' \<in> set (result @ [?m])" for m'
    proof (cases "m' = ?m")
      case True
      with here \<open>pos < scan_end chunk\<close> show ?thesis by auto
    next
      case False
      with that have "m' \<in> set result" by simp
      then show ?thesis by (rule "2.prems"(3))
    qed
    show ?thesis
      by (rule "2.IH" [OF guard pre suf run occ acc "2.prems"(4)])
  qed
qed

lemma matches_positions_local:
  assumes "matches chunk str = Inr ms" and "m \<in> set ms"
  shows "\<exists>i. occurs_at (chunk_contents chunk) str i \<and>
             scan_begin chunk \<le> i \<and> i < scan_end chunk \<and>
             match_position m = int_of_size_t i"
proof (rule matches_loop_positions [where acc = "[]" and lo = "scan_begin chunk"])
  show "matches_loop chunk str
          (string_find (chunk_contents chunk) str (scan_begin chunk)) [] = Inr ms"
    using assms(1) by (simp add: matches_def scan_begin_def)
  show "occurs_at (chunk_contents chunk) str pos \<and> scan_begin chunk \<le> pos"
    if "string_find (chunk_contents chunk) str (scan_begin chunk) = Some pos" for pos
    using string_find_occurs [OF that] by simp
  show "m \<in> set ms" by (rule assms(2))
qed simp

text \<open>
  A file of \<open>1000010\<close> bytes has two chunks; the second searches the offsets from
  \<open>1000000\<close> and reads from offset \<open>999997\<close>. The first chunk reports nothing
  for a string that begins with \<open>a\<close> when the first \<open>1000000\<close> bytes are
  \<open>x\<close>.
\<close>

lemma replicate_3: "replicate 3 x = [x, x, x]"
  by (simp add: numeral_3_eq_3)

lemma boundary_file_chunks:
  "chunks \<lparr>file_path = ''f'', file_size = 1000010\<rparr> =
     [\<lparr>chunk_file = \<lparr>file_path = ''f'', file_size = 1000010\<rparr>,
        chunk_search = \<lparr>range_begin = 0, range_end = 1000000\<rparr>,
        chunk_read = \<lparr>range_begin = 0, range_end = 1000003\<rparr>,
        chunk_contents = []\<rparr>,
      \<lparr>chunk_file = \<lparr>file_path = ''f'', file_size = 1000010\<rparr>,
        chunk_search = \<lparr>range_begin = 1000000, range_end = 1000010\<rparr>,
        chunk_read = \<lparr>range_begin = 999997, range_end = 1000010\<rparr>,
        chunk_contents = []\<rparr>]"
  by (simp add: chunks_def chunks_loop.simps Range_split_def Range_size_def wrap_int_def
      chunk_size_def FileChunk_ctor_def Range_clamp_def Range_extend_def border_size_def)

lemma boundary_first_chunk:
  fixes tail :: string
  assumes "length tail = 10" and "hd tail = CHR ''a''"
  shows "search (\<lambda>p. Some (replicate 1000000 CHR ''x'' @ tail))
     \<lparr>chunk_file = \<lparr>file_path = ''f'', file_size = 1000010\<rparr>,
        chunk_search = \<lparr>range_begin = 0, range_end = 1000000\<rparr>,
        chunk_read = \<lparr>range_begin = 0, range_end = 1000003\<rparr>,
        chunk_contents = []\<rparr> (CHR ''a'' # str) = Inr []"
proof -
  let ?c = "\<lparr>chunk_file = \<lparr>file_path = ''f'', file_size = 1000010\<rparr>,
        chunk_search = \<lparr>range_begin = 0, range_end = 1000000\<rparr>,
        chunk_read = \<lparr>range_begin = 0, range_end = 1000003\<rparr>,
        chunk_contents = []\<rparr>"
  let ?d = "\<lambda>p::string. Some (replicate 1000000 CHR ''x'' @ tail)"
  let ?s = "replicate 1000000 CHR ''x'' @ take 3 tail"
  have fetch: "fetch_contents ?d ?c = Inr (?c\<lparr>chunk_contents := ?s\<rparr>)"
    using assms(1) by (simp add: fetch_contents_def Range_size_def wrap_int_def)
  have "matches (?c\<lparr>chunk_contents := ?s\<rparr>) (CHR ''a'' # str) =
          Inr (map (spec_match (?c\<lparr>chunk_contents := ?s\<rparr>) (CHR ''a'' # str))
                 (filter (occurs_at ?s (CHR ''a'' # str))
                    [scan_begin (?c\<lparr>chunk_contents := ?s\<rparr>) ..< scan_end (?c\<lparr>chunk_contents := ?s\<rparr>)]))"
    using assms(1) by (subst matches_first) (simp_all add: INT_MAX_def)
  moreover have "scan_end (?c\<lparr>chunk_contents := ?s\<rparr>) = 1000000"
    by (simp add: scan_end_def to_index_def wrap_int_def size_t_of_int_def)
  moreover have "filter (occurs_at ?s (CHR ''a'' # str)) [a ..< 1000000] = []" for a
  proof (rule filter_upt_none)
    fix i :: nat
    assume "i < 1000000"
    then show "\<not> occurs_at ?s (CHR ''a'' # str) i"
      by (intro not_occurs_at_nth) (simp_all add: nth_append)
  qed
  ultimately have "matches (?c\<lparr>chunk_contents := ?s\<rparr>) (CHR ''a'' # str) = Inr []"
    by simp
  with fetch show ?thesis by (simp add: search_def)
qed

lemma boundary_second_chunk_abc:
  "search (\<lambda>p. Some (replicate 1000000 CHR ''x'' @ ''abcxxxxxxx''))
     \<lparr>chunk_file = \<lparr>file_path = ''f'', file_size = 1000010\<rparr>,
        chunk_search = \<lparr>range_begin = 1000000, range_end = 1000010\<rparr>,
        chunk_read = \<lparr>range_begin = 999997, range_end = 1000010\<rparr>,
        chunk_contents = []\<rparr> ''abc'' = Inl Out_of_range"
proof -
  let ?c = "\<lparr>chunk_file = \<lparr>file_path = ''f'', file_size = 1000010\<rparr>,
        chunk_search = \<lparr>range_begin = 1000000, range_end = 1000010\<rparr>,
        chunk_read = \<lparr>range_begin = 999997, range_end = 1000010\<rparr>,
        chunk_contents = []\<rparr>"
  let ?d = "\<lambda>p::string. Some (replicate 1000000 CHR ''x'' @ ''abcxxxxxxx'')"
  have fetch: "fetch_contents ?d ?c = Inr (?c\<lparr>chunk_contents := ''xxxabcxxxxxxx''\<rparr>)"
    by (simp add: fetch_contents_def Range_size_def wrap_int_def replicate_3)
  have "matches (?c\<lparr>chunk_contents := ''xxxabcxxxxxxx''\<rparr>) ''abc'' = Inl Out_of_range"
    by (simp add: eval_defs)
  with fetch show ?thesis by (simp add: search_def)
qed

text \<open>
  C3. The claim is that an occurrence whose text lies within the contents of the chunk
  whose search interval holds its start is reported by exactly one chunk of the file. The
  program misses it here: the file holds \<open>1000000\<close> bytes \<open>x\<close>, then \<open>abc\<close> at
  offset \<open>1000000\<close>, the first offset of the second search interval, then seven more
  bytes. The first chunk reports nothing, and in the second chunk the matcher finds the
  occurrence at index \<open>3\<close> of the contents, converts that index to an index once
  more, and \<open>suffix\<close> throws \<open>std::out_of_range\<close> for the negative result: no chunk
  reports the occurrence.
\<close>

theorem boundary_occurrence_lost:
  "map (\<lambda>c. search (\<lambda>p. Some (replicate 1000000 CHR ''x'' @ ''abcxxxxxxx'')) c ''abc'')
     (chunks (File_ctor (\<lambda>p. Some (replicate 1000000 CHR ''x'' @ ''abcxxxxxxx'')) ''f''))
   = [Inr [], Inl Out_of_range]"
proof -
  have f: "File_ctor (\<lambda>p. Some (replicate 1000000 CHR ''x'' @ ''abcxxxxxxx'')) ''f''
           = \<lparr>file_path = ''f'', file_size = 1000010\<rparr>"
    by (simp add: File_ctor_def wrap_int_def)
  have first: "search (\<lambda>p. Some (replicate 1000000 CHR ''x'' @ ''abcxxxxxxx''))
     \<lparr>chunk_file = \<lparr>file_path = ''f'', file_size = 1000010\<rparr>,
        chunk_search = \<lparr>range_begin = 0, range_end = 1000000\<rparr>,
        chunk_read = \<lparr>range_begin = 0, range_end = 1000003\<rparr>,
        chunk_contents = []\<rparr> ''abc'' = Inr []"
    by (rule boundary_first_chunk) simp_all
  show ?thesis
    by (simp only: f boundary_file_chunks list.map first boundary_second_chunk_abc)
qed

lemma boundary_second_chunk_aa:
  "search (\<lambda>p. Some (replicate 1000000 CHR ''x'' @ ''aaaxxxxxxx''))
     \<lparr>chunk_file = \<lparr>file_path = ''f'', file_size = 1000010\<rparr>,
        chunk_search = \<lparr>range_begin = 1000000, range_end = 1000010\<rparr>,
        chunk_read = \<lparr>range_begin = 999997, range_end = 1000010\<rparr>,
        chunk_contents = []\<rparr> ''aa'' = Inl Out_of_range"
proof -
  let ?c = "\<lparr>chunk_file = \<lparr>file_path = ''f'', file_size = 1000010\<rparr>,
        chunk_search = \<lparr>range_begin = 1000000, range_end = 1000010\<rparr>,
        chunk_read = \<lparr>range_begin = 999997, range_end = 1000010\<rparr>,
        chunk_contents = []\<rparr>"
  let ?d = "\<lambda>p::string. Some (replicate 1000000 CHR ''x'' @ ''aaaxxxxxxx'')"
  have fetch: "fetch_contents ?d ?c = Inr (?c\<lparr>chunk_contents := ''xxxaaaxxxxxxx''\<rparr>)"
    by (simp add: fetch_contents_def Range_size_def wrap_int_def replicate_3)
  have "matches (?c\<lparr>chunk_contents := ''xxxaaaxxxxxxx''\<rparr>) ''aa'' = Inl Out_of_range"
    by (simp add: eval_defs)
  with fetch show ?thesis by (simp add: search_def)
qed

text \<open>
  C9. The claim is that of two overlapping occurrences whose starts lie in the search
  interval of a chunk both are reported. After a match at index \<open>p\<close> the loop does
  search on from \<open>p + 1\<close>, and in a chunk that reads from offset \<open>0\<close> both are
  reported (\<open>matcher_aaa\<close>). In the second chunk of a file neither is: with \<open>aaa\<close>
  at offset \<open>1000000\<close> of a file of \<open>1000010\<close> bytes, the search for \<open>aa\<close> ends
  with \<open>std::out_of_range\<close> at the first occurrence.
\<close>

theorem overlapping_occurrences_lost:
  "map (\<lambda>c. search (\<lambda>p. Some (replicate 1000000 CHR ''x'' @ ''aaaxxxxxxx'')) c ''aa'')
     (chunks (File_ctor (\<lambda>p. Some (replicate 1000000 CHR ''x'' @ ''aaaxxxxxxx'')) ''f''))
   = [Inr [], Inl Out_of_range]"
proof -
  have f: "File_ctor (\<lambda>p. Some (replicate 1000000 CHR ''x'' @ ''aaaxxxxxxx'')) ''f''
           = \<lparr>file_path = ''f'', file_size = 1000010\<rparr>"
    by (simp add: File_ctor_def wrap_int_def)
  have first: "search (\<lambda>p. Some (replicate 1000000 CHR ''x'' @ ''aaaxxxxxxx''))
     \<lparr>chunk_file = \<lparr>file_path = ''f'', file_size = 1000010\<rparr>,
        chunk_search = \<lparr>range_begin = 0, range_end = 1000000\<rparr>,
        chunk_read = \<lparr>range_begin = 0, range_end = 1000003\<rparr>,
        chunk_contents = []\<rparr> ''aa'' = Inr []"
    by (rule boundary_first_chunk) simp_all
  show ?thesis
    by (simp only: f boundary_file_chunks list.map first boundary_second_chunk_aa)
qed

lemma late_file_chunks:
  "chunks \<lparr>file_path = ''f'', file_size = 1999994\<rparr> =
     [\<lparr>chunk_file = \<lparr>file_path = ''f'', file_size = 1999994\<rparr>,
        chunk_search = \<lparr>range_begin = 0, range_end = 1000000\<rparr>,
        chunk_read = \<lparr>range_begin = 0, range_end = 1000003\<rparr>,
        chunk_contents = []\<rparr>,
      \<lparr>chunk_file = \<lparr>file_path = ''f'', file_size = 1999994\<rparr>,
        chunk_search = \<lparr>range_begin = 1000000, range_end = 1999994\<rparr>,
        chunk_read = \<lparr>range_begin = 999997, range_end = 1999994\<rparr>,
        chunk_contents = []\<rparr>]"
  by (simp add: chunks_def chunks_loop.simps Range_split_def Range_size_def wrap_int_def
      chunk_size_def FileChunk_ctor_def Range_clamp_def Range_extend_def border_size_def)

text \<open>
  C1. The claim is that the position of every match is the offset of the match start
  from the start of the file, also in a chunk whose read interval does not begin at
  \<open>0\<close>. The program reports the index into the contents instead: in a file of
  \<open>1999994\<close> bytes whose last byte, at offset \<open>1999993\<close>, is the only \<open>a\<close>, the
  second chunk reads from offset \<open>999997\<close> and reports the match of \<open>a\<close> at
  position \<open>999996\<close>. The prefix of that match is the whole contents of the chunk and
  the suffix its first three characters, since both are taken at the index converted
  once more.
\<close>

theorem position_is_local:
  "search (\<lambda>p. Some (replicate 1999993 CHR ''x'' @ ''a''))
     (chunks (File_ctor (\<lambda>p. Some (replicate 1999993 CHR ''x'' @ ''a'')) ''f'') ! 1) ''a''
   = Inr [\<lparr>match_path = ''f'', match_position = 999996,
             match_prefix = replicate 999996 CHR ''x'' @ ''a'',
             match_suffix = ''xxx''\<rparr>] \<and>
   range_begin (chunk_read
     (chunks (File_ctor (\<lambda>p. Some (replicate 1999993 CHR ''x'' @ ''a'')) ''f'') ! 1)) = 999997 \<and>
   (replicate 1999993 CHR ''x'' @ ''a'') ! 1999993 = CHR ''a'' \<and>
   (999996::int) \<noteq> 1999993"
proof -
  let ?d = "\<lambda>p::string. Some (replicate 1999993 CHR ''x'' @ ''a'')"
  let ?c = "\<lparr>chunk_file = \<lparr>file_path = ''f'', file_size = 1999994\<rparr>,
        chunk_search = \<lparr>range_begin = 1000000, range_end = 1999994\<rparr>,
        chunk_read = \<lparr>range_begin = 999997, range_end = 1999994\<rparr>,
        chunk_contents = []\<rparr>"
  let ?s = "replicate 999996 CHR ''x'' @ ''a''"
  have f: "File_ctor ?d ''f'' = \<lparr>file_path = ''f'', file_size = 1999994\<rparr>"
    by (simp add: File_ctor_def wrap_int_def)
  have c: "chunks \<lparr>file_path = ''f'', file_size = 1999994\<rparr> ! 1 = ?c"
    by (simp add: late_file_chunks)
  have fetch: "fetch_contents ?d ?c = Inr (?c\<lparr>chunk_contents := ?s\<rparr>)"
    by (simp add: fetch_contents_def Range_size_def wrap_int_def)
  have occ: "occurs_at ?s ''a'' 999996"
    by (simp add: occurs_at_def)
  have "\<not> occurs_at ?s ''a'' i" if "i < 999996" for i
    using that by (intro not_occurs_at_nth) (simp_all add: nth_append)
  then have find1: "string_find ?s ''a'' 3 = Some 999996"
    using occ by (intro string_find_first) simp_all
  have find2: "string_find ?s ''a'' 999997 = None"
    by (rule string_find_beyond) simp
  have tr: "transform ?s = ?s"
    by (simp add: transform_escaped escaped_replicate) (simp add: escaped_def escape_char_def)
  have tr3: "transform ''xxx'' = ''xxx''"
    by (simp add: transform_def)
  have "matches (?c\<lparr>chunk_contents := ?s\<rparr>) ''a'' =
          Inr [\<lparr>match_path = ''f'', match_position = 999996,
                 match_prefix = ?s, match_suffix = ''xxx''\<rparr>]"
    by (simp add: matches_def matches_loop.simps to_index_def wrap_int_def size_t_of_int_def
        int_of_size_t_def prefix_def suffix_def substr_def border_size_def Let_def
        find1 find2 tr tr3 replicate_3)
  with fetch have "search ?d ?c ''a'' =
          Inr [\<lparr>match_path = ''f'', match_position = 999996,
                 match_prefix = ?s, match_suffix = ''xxx''\<rparr>]"
    by (simp add: search_def)
  moreover have "(replicate 1999993 CHR ''x'' @ ''a'') ! 1999993 = CHR ''a''"
    by (simp add: nth_append)
  ultimately show ?thesis
    by (simp only: f c) simp
qed

section \<open>The exit status of the program\<close>

lemma files_loop_answers:
  "(\<And>entry. entry \<in> set entries \<Longrightarrow> \<exists>regular. snd entry = Inr regular) \<Longrightarrow>
   files_loop d entries result =
     Inr (result @ map (\<lambda>entry. File_ctor d (fst entry))
                     (filter (\<lambda>entry. snd entry = Inr True) entries))"
proof (induction entries arbitrary: result)
  case Nil
  then show ?case by simp
next
  case (Cons entry entries)
  from Cons.prems [of entry] obtain regular where r: "snd entry = Inr regular"
    by auto
  have "\<exists>regular. snd e = Inr regular" if "e \<in> set entries" for e
    using Cons.prems [of e] that by simp
  from Cons.IH [OF this] r show ?case by simp
qed

lemma files_loop_throws:
  "entry \<in> set entries \<Longrightarrow> snd entry = Inl e \<Longrightarrow> \<exists>e'. files_loop d entries result = Inl e'"
proof (induction entries arbitrary: result)
  case Nil
  then show ?case by simp
next
  case (Cons x entries)
  show ?case
  proof (cases "snd x")
    case (Inl e')
    then show ?thesis by simp
  next
    case (Inr regular)
    with Cons.prems have "entry \<in> set entries" by auto
    from Cons.IH [OF this Cons.prems(2)] Inr show ?thesis by simp
  qed
qed

lemma all_chunks_loop:
  "foldl (\<lambda>all_chunks file. all_chunks @ chunks file) acc fl = acc @ concat (map chunks fl)"
  by (induction fl arbitrary: acc) simp_all

lemma futures_loop:
  "foldl (\<lambda>futures chunk. futures @ [(chunk, g chunk)]) acc cs = acc @ map (\<lambda>chunk. (chunk, g chunk)) cs"
  by (induction cs arbitrary: acc) simp_all

lemma main_Some:
  assumes "length argv = 3" and "files fs (argv ! 1) = Inr (Some fl)"
  shows "main fs argv =
           Exit EXIT_SUCCESS []
             (map (\<lambda>chunk. (chunk, search (fs_disk fs) chunk (argv ! 2))) (concat (map chunks fl)))"
  using assms by (simp add: main_def Let_def all_chunks_loop futures_loop)

text \<open>
  C8, as amended. With an argument count other than three (the program name and two
  arguments) the program writes the usage message and exits with the failure status. When
  the queries answer that the path is neither a regular file nor a directory it writes the
  diagnostic and exits with the failure status. In both cases no task is launched. When
  the queries answer that the path is a regular file, or that it is a directory and the
  walk below it and the query on each of its entries answer, the program exits with the
  success status, and every chunk of every file has been handed to a task, whatever the
  tasks found. When a query throws instead, the exception leaves \<open>main\<close> and the
  program is ended by \<open>std::terminate\<close>, before any task is launched.
\<close>

theorem main_exit_behaviour:
  "(length argv \<noteq> 3 \<longrightarrow> main fs argv = Exit EXIT_FAILURE usage_message []) \<and>
   (length argv = 3 \<and> is_regular_file fs (argv ! 1) = Inr False \<and>
      is_directory fs (argv ! 1) = Inr False \<longrightarrow>
      main fs argv = Exit EXIT_FAILURE path_message []) \<and>
   (length argv = 3 \<and> is_regular_file fs (argv ! 1) = Inr True \<longrightarrow>
      main fs argv =
        Exit EXIT_SUCCESS []
          (map (\<lambda>chunk. (chunk, search (fs_disk fs) chunk (argv ! 2)))
             (chunks (File_ctor (fs_disk fs) (argv ! 1))))) \<and>
   (length argv = 3 \<and> is_regular_file fs (argv ! 1) = Inr False \<and>
      is_directory fs (argv ! 1) = Inr True \<and>
      recursive_directory_iterator fs (argv ! 1) = Inr entries \<and>
      (\<forall>entry\<in>set entries. \<exists>regular. snd entry = Inr regular) \<longrightarrow>
      main fs argv =
        Exit EXIT_SUCCESS []
          (map (\<lambda>chunk. (chunk, search (fs_disk fs) chunk (argv ! 2)))
             (concat (map (\<lambda>entry. chunks (File_ctor (fs_disk fs) (fst entry)))
                        (filter (\<lambda>entry. snd entry = Inr True) entries))))) \<and>
   (length argv = 3 \<and>
      (is_regular_file fs (argv ! 1) = Inl e \<or>
       is_regular_file fs (argv ! 1) = Inr False \<and>
         (is_directory fs (argv ! 1) = Inl e \<or>
          is_directory fs (argv ! 1) = Inr True \<and>
            (recursive_directory_iterator fs (argv ! 1) = Inl e \<or>
             (\<exists>entry. recursive_directory_iterator fs (argv ! 1) = Inr entries \<and>
                 entry \<in> set entries \<and> snd entry = Inl e)))) \<longrightarrow>
      (\<exists>e'. main fs argv = Terminate e'))"
proof -
  let ?p = "argv ! 1"
  have usage: "main fs argv = Exit EXIT_FAILURE usage_message []" if "length argv \<noteq> 3"
    using that by (simp add: main_def)
  have neither: "main fs argv = Exit EXIT_FAILURE path_message []"
    if "length argv = 3" "is_regular_file fs ?p = Inr False" "is_directory fs ?p = Inr False"
  proof -
    from that(2,3) have "files fs ?p = Inr None" by (simp add: files_def)
    with that(1) show ?thesis by (simp add: main_def)
  qed
  have regular: "main fs argv =
        Exit EXIT_SUCCESS []
          (map (\<lambda>chunk. (chunk, search (fs_disk fs) chunk (argv ! 2)))
             (chunks (File_ctor (fs_disk fs) ?p)))"
    if "length argv = 3" "is_regular_file fs ?p = Inr True"
  proof -
    from that(2) have "files fs ?p = Inr (Some [File_ctor (fs_disk fs) ?p])"
      by (simp add: files_def)
    from main_Some [OF that(1) this] show ?thesis by simp
  qed
  have directory: "main fs argv =
        Exit EXIT_SUCCESS []
          (map (\<lambda>chunk. (chunk, search (fs_disk fs) chunk (argv ! 2)))
             (concat (map (\<lambda>entry. chunks (File_ctor (fs_disk fs) (fst entry)))
                        (filter (\<lambda>entry. snd entry = Inr True) entries))))"
    if "length argv = 3" "is_regular_file fs ?p = Inr False" "is_directory fs ?p = Inr True"
      "recursive_directory_iterator fs ?p = Inr entries"
      "\<forall>entry\<in>set entries. \<exists>regular. snd entry = Inr regular"
  proof -
    have "files_loop (fs_disk fs) entries [] =
            Inr ([] @ map (\<lambda>entry. File_ctor (fs_disk fs) (fst entry))
                        (filter (\<lambda>entry. snd entry = Inr True) entries))"
      using that(5) by (intro files_loop_answers) blast
    with that(2,3,4) have "files fs ?p =
        Inr (Some (map (\<lambda>entry. File_ctor (fs_disk fs) (fst entry))
                     (filter (\<lambda>entry. snd entry = Inr True) entries)))"
      by (simp add: files_def)
    from main_Some [OF that(1) this] show ?thesis by (simp add: comp_def)
  qed
  have throws: "\<exists>e'. main fs argv = Terminate e'"
    if len: "length argv = 3" and q:
      "is_regular_file fs ?p = Inl e \<or>
       is_regular_file fs ?p = Inr False \<and>
         (is_directory fs ?p = Inl e \<or>
          is_directory fs ?p = Inr True \<and>
            (recursive_directory_iterator fs ?p = Inl e \<or>
             (\<exists>entry. recursive_directory_iterator fs ?p = Inr entries \<and>
                 entry \<in> set entries \<and> snd entry = Inl e)))"
  proof -
    have "\<exists>e'. files fs ?p = Inl e'"
    proof -
      consider (a) "is_regular_file fs ?p = Inl e"
        | (b) "is_regular_file fs ?p = Inr False" "is_directory fs ?p = Inl e"
        | (c) "is_regular_file fs ?p = Inr False" "is_directory fs ?p = Inr True"
              "recursive_directory_iterator fs ?p = Inl e"
        | (d) entry where "is_regular_file fs ?p = Inr False" "is_directory fs ?p = Inr True"
              "recursive_directory_iterator fs ?p = Inr entries"
              "entry \<in> set entries" "snd entry = Inl e"
        using q by blast
      then show ?thesis
      proof cases
        case a
        then show ?thesis by (simp add: files_def)
      next
        case b
        then show ?thesis by (simp add: files_def)
      next
        case c
        then show ?thesis by (simp add: files_def)
      next
        case d
        from files_loop_throws [OF d(4,5)] obtain e' where
          "files_loop (fs_disk fs) entries [] = Inl e'" by blast
        with d(1,2,3) show ?thesis by (simp add: files_def)
      qed
    qed
    then obtain e' where "files fs ?p = Inl e'" by blast
    with len show ?thesis by (simp add: main_def)
  qed
  from usage neither regular directory throws show ?thesis by blast
qed

theorem main_exit_behaviour_witness:
  "main \<lparr>is_regular_file = (\<lambda>p. Inr (p = ''f'')),
         is_directory = (\<lambda>p. Inr (p = ''d'' \<or> p = ''loop'')),
         recursive_directory_iterator =
           (\<lambda>p. if p = ''d''
                then Inr [(''d/a'', Inr True), (''d/sub'', Inr False), (''d/sub/b'', Inr True)]
                else Inr [(''loop/self'', Inl Filesystem_error)]),
         fs_disk =
           (\<lambda>p. if p = ''d/a'' then Some ''xxabcxx''
                else if p = ''d/sub/b'' \<or> p = ''f'' then Some [] else None)\<rparr> [''minigrep'', ''f''] = Exit EXIT_FAILURE usage_message [] \<and>
   main \<lparr>is_regular_file = (\<lambda>p. Inr (p = ''f'')),
         is_directory = (\<lambda>p. Inr (p = ''d'' \<or> p = ''loop'')),
         recursive_directory_iterator =
           (\<lambda>p. if p = ''d''
                then Inr [(''d/a'', Inr True), (''d/sub'', Inr False), (''d/sub/b'', Inr True)]
                else Inr [(''loop/self'', Inl Filesystem_error)]),
         fs_disk =
           (\<lambda>p. if p = ''d/a'' then Some ''xxabcxx''
                else if p = ''d/sub/b'' \<or> p = ''f'' then Some [] else None)\<rparr> [''minigrep'', ''g'', ''abc''] = Exit EXIT_FAILURE path_message [] \<and>
   main \<lparr>is_regular_file = (\<lambda>p. Inr (p = ''f'')),
         is_directory = (\<lambda>p. Inr (p = ''d'' \<or> p = ''loop'')),
         recursive_directory_iterator =
           (\<lambda>p. if p = ''d''
                then Inr [(''d/a'', Inr True), (''d/sub'', Inr False), (''d/sub/b'', Inr True)]
                else Inr [(''loop/self'', Inl Filesystem_error)]),
         fs_disk =
           (\<lambda>p. if p = ''d/a'' then Some ''xxabcxx''
                else if p = ''d/sub/b'' \<or> p = ''f'' then Some [] else None)\<rparr> [''minigrep'', ''f'', ''abc''] =
        Exit EXIT_SUCCESS []
          [(\<lparr>chunk_file = \<lparr>file_path = ''f'', file_size = 0\<rparr>,
              chunk_search = \<lparr>range_begin = 0, range_end = 0\<rparr>,
              chunk_read = \<lparr>range_begin = 0, range_end = 0\<rparr>,
              chunk_contents = []\<rparr>, Inr [])] \<and>
   main \<lparr>is_regular_file = (\<lambda>p. Inr (p = ''f'')),
         is_directory = (\<lambda>p. Inr (p = ''d'' \<or> p = ''loop'')),
         recursive_directory_iterator =
           (\<lambda>p. if p = ''d''
                then Inr [(''d/a'', Inr True), (''d/sub'', Inr False), (''d/sub/b'', Inr True)]
                else Inr [(''loop/self'', Inl Filesystem_error)]),
         fs_disk =
           (\<lambda>p. if p = ''d/a'' then Some ''xxabcxx''
                else if p = ''d/sub/b'' \<or> p = ''f'' then Some [] else None)\<rparr> [''minigrep'', ''d'', ''abc''] =
        Exit EXIT_SUCCESS []
          [(\<lparr>chunk_file = \<lparr>file_path = ''d/a'', file_size = 7\<rparr>,
              chunk_search = \<lparr>range_begin = 0, range_end = 7\<rparr>,
              chunk_read = \<lparr>range_begin = 0, range_end = 7\<rparr>,
              chunk_contents = []\<rparr>,
            Inr [\<lparr>match_path = ''d/a'', match_position = 2, match_prefix = ''xx'', match_suffix = ''xx''\<rparr>]),
           (\<lparr>chunk_file = \<lparr>file_path = ''d/sub/b'', file_size = 0\<rparr>,
              chunk_search = \<lparr>range_begin = 0, range_end = 0\<rparr>,
              chunk_read = \<lparr>range_begin = 0, range_end = 0\<rparr>,
              chunk_contents = []\<rparr>, Inr [])] \<and>
   (\<exists>e'. main \<lparr>is_regular_file = (\<lambda>p. Inr (p = ''f'')),
         is_directory = (\<lambda>p. Inr (p = ''d'' \<or> p = ''loop'')),
         recursive_directory_iterator =
           (\<lambda>p. if p = ''d''
                then Inr [(''d/a'', Inr True), (''d/sub'', Inr False), (''d/sub/b'', Inr True)]
                else Inr [(''loop/self'', Inl Filesystem_error)]),
         fs_disk =
           (\<lambda>p. if p = ''d/a'' then Some ''xxabcxx''
                else if p = ''d/sub/b'' \<or> p = ''f'' then Some [] else None)\<rparr> [''minigrep'', ''loop'', ''abc''] = Terminate e')"
proof -
  let ?fs = "\<lparr>is_regular_file = (\<lambda>p. Inr (p = ''f'')),
         is_directory = (\<lambda>p. Inr (p = ''d'' \<or> p = ''loop'')),
         recursive_directory_iterator =
           (\<lambda>p. if p = ''d''
                then Inr [(''d/a'', Inr True), (''d/sub'', Inr False), (''d/sub/b'', Inr True)]
                else Inr [(''loop/self'', Inl Filesystem_error)]),
         fs_disk =
           (\<lambda>p. if p = ''d/a'' then Some ''xxabcxx''
                else if p = ''d/sub/b'' \<or> p = ''f'' then Some [] else None)\<rparr>"
  note thm1 = main_exit_behaviour [of "[''minigrep'', ''f'']" ?fs]
  have 1: "main ?fs [''minigrep'', ''f''] = Exit EXIT_FAILURE usage_message []"
    using thm1 by simp
  note thm2 = main_exit_behaviour [of "[''minigrep'', ''g'', ''abc'']" ?fs]
  have 2: "main ?fs [''minigrep'', ''g'', ''abc''] = Exit EXIT_FAILURE path_message []"
    using thm2 by simp
  note thm3 = main_exit_behaviour [of "[''minigrep'', ''f'', ''abc'']" ?fs]
  have 3: "main ?fs [''minigrep'', ''f'', ''abc''] =
        Exit EXIT_SUCCESS []
          [(\<lparr>chunk_file = \<lparr>file_path = ''f'', file_size = 0\<rparr>,
              chunk_search = \<lparr>range_begin = 0, range_end = 0\<rparr>,
              chunk_read = \<lparr>range_begin = 0, range_end = 0\<rparr>,
              chunk_contents = []\<rparr>, Inr [])]"
    using thm3 by (simp add: eval_defs)
  note thm4 = main_exit_behaviour [of "[''minigrep'', ''d'', ''abc'']" ?fs
      "[(''d/a'', Inr True), (''d/sub'', Inr False), (''d/sub/b'', Inr True)]"]
  have 4: "main ?fs [''minigrep'', ''d'', ''abc''] =
        Exit EXIT_SUCCESS []
          [(\<lparr>chunk_file = \<lparr>file_path = ''d/a'', file_size = 7\<rparr>,
              chunk_search = \<lparr>range_begin = 0, range_end = 7\<rparr>,
              chunk_read = \<lparr>range_begin = 0, range_end = 7\<rparr>,
              chunk_contents = []\<rparr>,
            Inr [\<lparr>match_path = ''d/a'', match_position = 2, match_prefix = ''xx'', match_suffix = ''xx''\<rparr>]),
           (\<lparr>chunk_file = \<lparr>file_path = ''d/sub/b'', file_size = 0\<rparr>,
              chunk_search = \<lparr>range_begin = 0, range_end = 0\<rparr>,
              chunk_read = \<lparr>range_begin = 0, range_end = 0\<rparr>,
              chunk_contents = []\<rparr>, Inr [])]"
    using thm4 by (simp add: eval_defs) blast
  note thm5 = main_exit_behaviour [of "[''minigrep'', ''loop'', ''abc'']" ?fs
      "[(''loop/self'', Inl Filesystem_error)]" Filesystem_error]
  have 5: "\<exists>e'. main ?fs [''minigrep'', ''loop'', ''abc''] = Terminate e'"
    using thm5 by simp
  from 1 2 3 4 5 show ?thesis by (simp only: simp_thms)
qed

text \<open>
  C8 as stated fails: the path \<open>loop\<close> is a directory, so the claim has the program
  exit with the success status, but the directory holds a symbolic link that loops, the
  query on that entry throws, and the program is ended by \<open>std::terminate\<close>.
\<close>

theorem main_exit_counterexample:
  "length [''minigrep'', ''loop'', ''abc''] = 3 \<and>
   is_regular_file \<lparr>is_regular_file = (\<lambda>p. Inr (p = ''f'')),
         is_directory = (\<lambda>p. Inr (p = ''d'' \<or> p = ''loop'')),
         recursive_directory_iterator =
           (\<lambda>p. if p = ''d''
                then Inr [(''d/a'', Inr True), (''d/sub'', Inr False), (''d/sub/b'', Inr True)]
                else Inr [(''loop/self'', Inl Filesystem_error)]),
         fs_disk =
           (\<lambda>p. if p = ''d/a'' then Some ''xxabcxx''
                else if p = ''d/sub/b'' \<or> p = ''f'' then Some [] else None)\<rparr> ([''minigrep'', ''loop'', ''abc''] ! 1) = Inr False \<and>
   is_directory \<lparr>is_regular_file = (\<lambda>p. Inr (p = ''f'')),
         is_directory = (\<lambda>p. Inr (p = ''d'' \<or> p = ''loop'')),
         recursive_directory_iterator =
           (\<lambda>p. if p = ''d''
                then Inr [(''d/a'', Inr True), (''d/sub'', Inr False), (''d/sub/b'', Inr True)]
                else Inr [(''loop/self'', Inl Filesystem_error)]),
         fs_disk =
           (\<lambda>p. if p = ''d/a'' then Some ''xxabcxx''
                else if p = ''d/sub/b'' \<or> p = ''f'' then Some [] else None)\<rparr> ([''minigrep'', ''loop'', ''abc''] ! 1) = Inr True \<and>
   main \<lparr>is_regular_file = (\<lambda>p. Inr (p = ''f'')),
         is_directory = (\<lambda>p. Inr (p = ''d'' \<or> p = ''loop'')),
         recursive_directory_iterator =
           (\<lambda>p. if p = ''d''
                then Inr [(''d/a'', Inr True), (''d/sub'', Inr False), (''d/sub/b'', Inr True)]
                else Inr [(''loop/self'', Inl Filesystem_error)]),
         fs_disk =
           (\<lambda>p. if p = ''d/a'' then Some ''xxabcxx''
                else if p = ''d/sub/b'' \<or> p = ''f'' then Some [] else None)\<rparr> [''minigrep'', ''loop'', ''abc''] = Terminate Filesystem_error"
  by (simp add: main_def files_def)

end
